theory Spec2Isabelle
  imports Main "HOL-Library.Word" "HOL-Library.Sublist"
begin

section \<open>The nvlist engine of stand/libsa/zfs/nvlist.c\<close>

text \<open>
  The embedding follows \<^verbatim>\<open>src/stand/libsa/zfs/nvlist.c\<close> as compiled for amd64, the
  loader's main platform: little-endian, LP64, \<^verbatim>\<open>char\<close> signed.  Hence
  \<^verbatim>\<open>_BYTE_ORDER == _LITTLE_ENDIAN\<close> is 1, \<^verbatim>\<open>unsigned\<close> and \<^verbatim>\<open>int\<close> are 32 bits wide
  (their wrap-around is written out with \<open>mod 2 ^ 32\<close>), while \<^verbatim>\<open>size_t\<close> values and pointer
  offsets are natural numbers.

  Memory is a list of bytes.  A pointer is modelled by the bytes that are addressable
  from it on, so that advancing a pointer by \<open>k\<close> is \<open>drop k\<close>; a field access inside a
  buffer is an offset into that list.  Every read and write checks the offset against
  the length of the list; an access outside it is undefined behaviour in C and is the
  value \<open>Inl BadAccess\<close> here.  All \<^verbatim>\<open>nv_data\<close> pointers are taken to be 4-byte aligned
  (as the results of malloc and realloc are), so \<^verbatim>\<open>NV_ALIGN4\<close> of an address is
  \<^verbatim>\<open>NV_ALIGN4\<close> of its offset.
\<close>

type_synonym byte = "8 word"

datatype fault = BadAccess | OutOfFuel

datatype errno = OK | EINVAL | ENOENT | ENOMEM | EIO | ENOTSUP

text \<open>Sequencing of operations that may fault.\<close>

definition bindf :: "fault + 'a \<Rightarrow> ('a \<Rightarrow> fault + 'b) \<Rightarrow> fault + 'b" where
  "bindf r f = (case r of Inl e \<Rightarrow> Inl e | Inr x \<Rightarrow> f x)"

subsection \<open>Constants and macros of the missing header libzfs.h\<close>

text \<open>
  Modelled from the spec: the header \<^verbatim>\<open>libzfs.h\<close> with the macros \<^verbatim>\<open>NV_ALIGN\<close>,
  \<^verbatim>\<open>NV_ALIGN4\<close>, \<^verbatim>\<open>NV_ENCODE_XDR\<close>, \<^verbatim>\<open>NV_VERSION\<close>, \<^verbatim>\<open>NV_UNIQUE_NAME\<close> and the
  structure declarations is not among the sources.  The spec gives 8-byte alignment for
  \<^verbatim>\<open>NV_ALIGN\<close>, 4-byte alignment for \<^verbatim>\<open>NV_ALIGN4\<close>, \<^verbatim>\<open>NV_ENCODE_XDR = 1\<close>,
  \<^verbatim>\<open>NV_VERSION = 0\<close> and \<^verbatim>\<open>NV_UNIQUE_NAME = 1\<close>.  The numbers of the data types are the
  indices of their names in the table \<^verbatim>\<open>typenames\<close> of \<^verbatim>\<open>nvlist_print\<close>.
\<close>

definition NV_ALIGN :: "nat \<Rightarrow> nat" where
  "NV_ALIGN x = (x + 7) div 8 * 8"

definition NV_ALIGN4 :: "nat \<Rightarrow> nat" where
  "NV_ALIGN4 x = (x + 3) div 4 * 4"

definition NV_ENCODE_XDR :: byte where "NV_ENCODE_XDR = 1"
definition NV_VERSION :: nat where "NV_VERSION = 0"
definition NV_UNIQUE_NAME :: nat where "NV_UNIQUE_NAME = 1"

definition DATA_TYPE_BOOLEAN :: nat where "DATA_TYPE_BOOLEAN = 1"
definition DATA_TYPE_BYTE :: nat where "DATA_TYPE_BYTE = 2"
definition DATA_TYPE_INT16 :: nat where "DATA_TYPE_INT16 = 3"
definition DATA_TYPE_UINT16 :: nat where "DATA_TYPE_UINT16 = 4"
definition DATA_TYPE_INT32 :: nat where "DATA_TYPE_INT32 = 5"
definition DATA_TYPE_UINT32 :: nat where "DATA_TYPE_UINT32 = 6"
definition DATA_TYPE_INT64 :: nat where "DATA_TYPE_INT64 = 7"
definition DATA_TYPE_UINT64 :: nat where "DATA_TYPE_UINT64 = 8"
definition DATA_TYPE_STRING :: nat where "DATA_TYPE_STRING = 9"
definition DATA_TYPE_NVLIST :: nat where "DATA_TYPE_NVLIST = 19"
definition DATA_TYPE_NVLIST_ARRAY :: nat where "DATA_TYPE_NVLIST_ARRAY = 20"
definition DATA_TYPE_BOOLEAN_VALUE :: nat where "DATA_TYPE_BOOLEAN_VALUE = 21"
definition DATA_TYPE_INT8 :: nat where "DATA_TYPE_INT8 = 22"
definition DATA_TYPE_UINT8 :: nat where "DATA_TYPE_UINT8 = 23"

text \<open>
  \<^verbatim>\<open>sizeof(nvs_data_t)\<close>: two unsigned words (version, flags) and one pair header
  (\<^verbatim>\<open>encoded_size\<close>, \<^verbatim>\<open>decoded_size\<close>); \<^verbatim>\<open>sizeof(nvp_header_t)\<close> is 8.
\<close>

definition sizeof_nvs_data :: nat where "sizeof_nvs_data = 16"
definition sizeof_nvp_header :: nat where "sizeof_nvp_header = 8"

record nvs_header =
  nvh_encoding :: byte
  nvh_endian :: byte
  nvh_reserved1 :: byte
  nvh_reserved2 :: byte

record nvlist =
  nv_header :: nvs_header
  nv_asize :: nat
  nv_size :: nat
  nv_data :: "byte list option"
  nv_idx :: "nat option"

subsection \<open>Memory\<close>

definition readb :: "byte list \<Rightarrow> nat \<Rightarrow> nat \<Rightarrow> fault + byte list" where
  "readb m p n = (if p + n \<le> length m then Inr (take n (drop p m)) else Inl BadAccess)"

definition writeb :: "byte list \<Rightarrow> nat \<Rightarrow> byte list \<Rightarrow> fault + byte list" where
  "writeb m p bs =
     (if p + length bs \<le> length m
      then Inr (take p m @ bs @ drop (p + length bs) m) else Inl BadAccess)"

fun le_val :: "byte list \<Rightarrow> nat" where
  "le_val [] = 0"
| "le_val (b # bs) = unat b + 256 * le_val bs"

definition be_val :: "byte list \<Rightarrow> nat" where
  "be_val bs = le_val (rev bs)"

definition le_bytes32 :: "nat \<Rightarrow> byte list" where
  "le_bytes32 v = [of_nat v, of_nat (v div 2 ^ 8), of_nat (v div 2 ^ 16), of_nat (v div 2 ^ 24)]"

definition be_bytes32 :: "nat \<Rightarrow> byte list" where
  "be_bytes32 v = rev (le_bytes32 v)"

definition le_bytes64 :: "nat \<Rightarrow> byte list" where
  "le_bytes64 v = le_bytes32 v @ le_bytes32 (v div 2 ^ 32)"

text \<open>\<^verbatim>\<open>*(unsigned *)p\<close> and \<^verbatim>\<open>*(unsigned *)p = v\<close> on the little-endian host.\<close>

definition load32 :: "byte list \<Rightarrow> nat \<Rightarrow> fault + nat" where
  "load32 m p = bindf (readb m p 4) (\<lambda>bs. Inr (le_val bs))"

definition store32 :: "byte list \<Rightarrow> nat \<Rightarrow> nat \<Rightarrow> fault + byte list" where
  "store32 m p v = writeb m p (le_bytes32 v)"

definition load64 :: "byte list \<Rightarrow> nat \<Rightarrow> fault + nat" where
  "load64 m p = bindf (readb m p 8) (\<lambda>bs. Inr (le_val bs))"

definition store64 :: "byte list \<Rightarrow> nat \<Rightarrow> nat \<Rightarrow> fault + byte list" where
  "store64 m p v = writeb m p (le_bytes64 v)"

text \<open>\<^verbatim>\<open>be32dec(p)\<close>, and \<^verbatim>\<open>*(unsigned *)p = htobe32(v)\<close>.\<close>

definition be32dec :: "byte list \<Rightarrow> nat \<Rightarrow> fault + nat" where
  "be32dec m p = bindf (readb m p 4) (\<lambda>bs. Inr (be_val bs))"

definition store_be32 :: "byte list \<Rightarrow> nat \<Rightarrow> nat \<Rightarrow> fault + byte list" where
  "store_be32 m p v = writeb m p (be_bytes32 v)"

text \<open>Conversion of a 32-bit pattern to \<^verbatim>\<open>int\<close>.\<close>

definition to_int32 :: "nat \<Rightarrow> int" where
  "to_int32 v = (if v mod 2 ^ 32 < 2 ^ 31 then int (v mod 2 ^ 32) else int (v mod 2 ^ 32) - 2 ^ 32)"

text \<open>
  A cursor moved by a signed amount.  Moving it before the start of its buffer is
  undefined; every such move in the source is followed by an access through the cursor.
\<close>

definition advance :: "nat \<Rightarrow> int \<Rightarrow> fault + nat" where
  "advance p d = (if 0 \<le> int p + d then Inr (nat (int p + d)) else Inl BadAccess)"

text \<open>
  A C string argument: the bytes at the pointer.  The string ends at the first NUL; a
  terminating NUL follows the last byte of the list.
\<close>

definition c_str :: "byte list \<Rightarrow> byte list" where
  "c_str s = takeWhile (\<lambda>b. b \<noteq> 0) s"

definition strlen :: "byte list \<Rightarrow> nat" where
  "strlen s = length (c_str s)"


subsection \<open>XDR primitives\<close>

datatype xdr_op = XDR_OP_ENCODE | XDR_OP_DECODE

text \<open>
  The function pointers of \<^verbatim>\<open>xdr_t\<close>.  \<open>GET_BE\<close> stands for \<^verbatim>\<open>_getint\<close> and
  \<^verbatim>\<open>_getuint\<close>, \<open>GET_MEM\<close> for \<^verbatim>\<open>mem_int\<close> and \<^verbatim>\<open>mem_uint\<close>, \<open>PUT_BE\<close> for \<^verbatim>\<open>_putint\<close>
  and \<^verbatim>\<open>_putuint\<close>; the signed and the unsigned variant move the same 32 bits.  A
  pointer left out of the initialiser is null, and calling it faults.
\<close>

datatype getter = GET_BE | GET_MEM | GET_NULL

datatype putter = PUT_BE | PUT_NULL

record xdr =
  xdr_op :: xdr_op
  xdr_getuint :: getter
  xdr_putuint :: putter

fun call_get :: "getter \<Rightarrow> byte list \<Rightarrow> nat \<Rightarrow> fault + nat" where
  "call_get GET_BE m p = be32dec m p"
| "call_get GET_MEM m p = load32 m p"
| "call_get GET_NULL m p = Inl BadAccess"

fun call_put :: "putter \<Rightarrow> byte list \<Rightarrow> nat \<Rightarrow> nat \<Rightarrow> fault + byte list" where
  "call_put PUT_BE m p v = store_be32 m p v"
| "call_put PUT_NULL m p v = Inl BadAccess"

definition xdr_export :: xdr where
  "xdr_export = \<lparr>xdr_op = XDR_OP_ENCODE, xdr_getuint = GET_NULL, xdr_putuint = PUT_BE\<rparr>"

definition xdr_import :: xdr where
  "xdr_import = \<lparr>xdr_op = XDR_OP_DECODE, xdr_getuint = GET_BE, xdr_putuint = PUT_NULL\<rparr>"

definition xdrmem :: xdr where
  "xdrmem = \<lparr>xdr_op = XDR_OP_DECODE, xdr_getuint = GET_MEM, xdr_putuint = PUT_NULL\<rparr>"

text \<open>
  \<^verbatim>\<open>xdr_int\<close> and \<^verbatim>\<open>xdr_u_int\<close>, with the value \<open>v\<close> of \<^verbatim>\<open>*ip\<close> on entry; the result is
  the return value, the memory and \<^verbatim>\<open>*ip\<close> on exit.  Decoding writes the decoded word
  back to \<^verbatim>\<open>buf\<close>.
\<close>

definition xdr_u_int :: "xdr \<Rightarrow> byte list \<Rightarrow> nat \<Rightarrow> nat \<Rightarrow> fault + (int \<times> byte list \<times> nat)" where
  "xdr_u_int xdr m buf v =
     (case xdr_op xdr of
        XDR_OP_ENCODE \<Rightarrow> bindf (call_put (xdr_putuint xdr) m buf v) (\<lambda>m'. Inr (4, m', v))
      | XDR_OP_DECODE \<Rightarrow>
          bindf (call_get (xdr_getuint xdr) m buf) (\<lambda>x.
          bindf (store32 m buf x) (\<lambda>m'. Inr (4, m', x))))"

text \<open>The same with \<^verbatim>\<open>ip\<close> pointing to \<^verbatim>\<open>buf\<close> itself, as for the values of a pair.\<close>

definition xdr_int_inplace :: "xdr \<Rightarrow> byte list \<Rightarrow> nat \<Rightarrow> fault + (int \<times> byte list)" where
  "xdr_int_inplace xdr m buf =
     (case xdr_op xdr of
        XDR_OP_ENCODE \<Rightarrow>
          bindf (load32 m buf) (\<lambda>v.
          bindf (call_put (xdr_putuint xdr) m buf v) (\<lambda>m'. Inr (4, m')))
      | XDR_OP_DECODE \<Rightarrow>
          bindf (call_get (xdr_getuint xdr) m buf) (\<lambda>x.
          bindf (store32 m buf x) (\<lambda>m'. Inr (4, m'))))"

text \<open>Sign extension of a \<^verbatim>\<open>char\<close> and of a \<^verbatim>\<open>short\<close> to the 32 bits of an \<^verbatim>\<open>int\<close>.\<close>

definition sext8 :: "nat \<Rightarrow> nat" where
  "sext8 b = (if b < 2 ^ 7 then b else b + 2 ^ 32 - 2 ^ 8)"

definition sext16 :: "nat \<Rightarrow> nat" where
  "sext16 s = (if s < 2 ^ 15 then s else s + 2 ^ 32 - 2 ^ 16)"

text \<open>
  \<^verbatim>\<open>xdr_char\<close>, \<^verbatim>\<open>xdr_short\<close> and \<^verbatim>\<open>xdr_u_short\<close>, called with the value pointer equal to
  \<^verbatim>\<open>buf\<close>: the narrow value is read, \<^verbatim>\<open>xdr_int\<close> runs on the local \<^verbatim>\<open>i\<close>, and when
  decoding the narrow value is written back.
\<close>

definition xdr_char :: "xdr \<Rightarrow> byte list \<Rightarrow> nat \<Rightarrow> fault + (int \<times> byte list)" where
  "xdr_char xdr m buf =
     bindf (readb m buf 1) (\<lambda>c.
     bindf (xdr_u_int xdr m buf (sext8 (le_val c))) (\<lambda>(rv, m', i).
       case xdr_op xdr of
         XDR_OP_DECODE \<Rightarrow> bindf (writeb m' buf (take 1 (le_bytes32 i))) (\<lambda>m''. Inr (rv, m''))
       | XDR_OP_ENCODE \<Rightarrow> Inr (rv, m')))"

definition xdr_short :: "xdr \<Rightarrow> byte list \<Rightarrow> nat \<Rightarrow> fault + (int \<times> byte list)" where
  "xdr_short xdr m buf =
     bindf (readb m buf 2) (\<lambda>s.
     bindf (xdr_u_int xdr m buf (sext16 (le_val s))) (\<lambda>(rv, m', i).
       case xdr_op xdr of
         XDR_OP_DECODE \<Rightarrow> bindf (writeb m' buf (take 2 (le_bytes32 i))) (\<lambda>m''. Inr (rv, m''))
       | XDR_OP_ENCODE \<Rightarrow> Inr (rv, m')))"

definition xdr_u_short :: "xdr \<Rightarrow> byte list \<Rightarrow> nat \<Rightarrow> fault + (int \<times> byte list)" where
  "xdr_u_short xdr m buf =
     bindf (readb m buf 2) (\<lambda>s.
     bindf (xdr_u_int xdr m buf (le_val s)) (\<lambda>(rv, m', u).
       case xdr_op xdr of
         XDR_OP_DECODE \<Rightarrow> bindf (writeb m' buf (take 2 (le_bytes32 u))) (\<lambda>m''. Inr (rv, m''))
       | XDR_OP_ENCODE \<Rightarrow> Inr (rv, m')))"

text \<open>
  \<^verbatim>\<open>xdr_string\<close>, called with \<^verbatim>\<open>buf\<close> equal to \<^verbatim>\<open>&s->nv_size\<close>.  \<^verbatim>\<open>NV_ALIGN4\<close> is
  computed on 32 bits and the result is an \<^verbatim>\<open>int\<close>; the signed sum of the encoding
  branch has the same bits as the unsigned sum of the decoding branch.
\<close>

definition xdr_string_size :: "nat \<Rightarrow> int" where
  "xdr_string_size n = to_int32 ((n + 4 + 3) mod 2 ^ 32 div 4 * 4)"

definition xdr_string :: "xdr \<Rightarrow> byte list \<Rightarrow> nat \<Rightarrow> fault + (int \<times> byte list)" where
  "xdr_string xdr m s =
     (case xdr_op xdr of
        XDR_OP_ENCODE \<Rightarrow>
          bindf (load32 m s) (\<lambda>n.
          bindf (call_put (xdr_putuint xdr) m s n) (\<lambda>m'. Inr (xdr_string_size n, m')))
      | XDR_OP_DECODE \<Rightarrow>
          bindf (call_get (xdr_getuint xdr) m s) (\<lambda>n.
          bindf (store32 m s n) (\<lambda>m'. Inr (xdr_string_size n, m'))))"

text \<open>
  \<^verbatim>\<open>xdr_int64\<close> and \<^verbatim>\<open>xdr_uint64\<close> with \<^verbatim>\<open>lp\<close> equal to \<^verbatim>\<open>buf\<close>.  Both move the high
  word and then the low word; they differ in the signedness of the local \<^verbatim>\<open>hi\<close> only,
  which does not change the bits stored.
\<close>

definition xdr_uint64 :: "xdr \<Rightarrow> byte list \<Rightarrow> nat \<Rightarrow> fault + (int \<times> byte list)" where
  "xdr_uint64 xdr m buf =
     (case xdr_op xdr of
        XDR_OP_ENCODE \<Rightarrow>
          bindf (load64 m buf) (\<lambda>v.
          bindf (call_put (xdr_putuint xdr) m buf (v div 2 ^ 32)) (\<lambda>m1.
          bindf (call_put (xdr_putuint xdr) m1 (buf + 4) (v mod 2 ^ 32)) (\<lambda>m2. Inr (8, m2))))
      | XDR_OP_DECODE \<Rightarrow>
          bindf (call_get (xdr_getuint xdr) m buf) (\<lambda>hi.
          bindf (call_get (xdr_getuint xdr) m (buf + 4)) (\<lambda>lo.
          bindf (store64 m buf (hi * 2 ^ 32 + lo)) (\<lambda>m'. Inr (8, m')))))"

definition xdr_int64 :: "xdr \<Rightarrow> byte list \<Rightarrow> nat \<Rightarrow> fault + (int \<times> byte list)" where
  "xdr_int64 = xdr_uint64"

subsection \<open>Creation\<close>

text \<open>
  \<^verbatim>\<open>nvlist_create\<close>; \<open>a1\<close> and \<open>a2\<close> tell whether the two calls of calloc succeed.  The
  result \<open>None\<close> is the null pointer.
\<close>

definition nvlist_create :: "bool \<Rightarrow> bool \<Rightarrow> int \<Rightarrow> nvlist option" where
  "nvlist_create a1 a2 flag =
     (if \<not> a1 then None
      else if \<not> a2 then None
      else Some \<lparr>nv_header = \<lparr>nvh_encoding = NV_ENCODE_XDR, nvh_endian = 1,
                     nvh_reserved1 = 0, nvh_reserved2 = 0\<rparr>,
                 nv_asize = sizeof_nvs_data, nv_size = sizeof_nvs_data,
                 nv_data = Some (le_bytes32 NV_VERSION @ le_bytes32 (nat (flag mod 2 ^ 32))
                                 @ replicate 8 0),
                 nv_idx = None\<rparr>)"


subsection \<open>The walker\<close>

text \<open>
  The loop of \<^verbatim>\<open>nvlist_size\<close> from the header at \<open>pair\<close> on; the result is the final
  \<^verbatim>\<open>p\<close>.  The source has no bound for its reads: a header outside the bytes is read
  all the same, which is \<open>BadAccess\<close>.
\<close>

function size_loop :: "getter \<Rightarrow> byte list \<Rightarrow> nat \<Rightarrow> fault + nat" where
  "size_loop g m pair =
     (case call_get g m pair of
        Inl e \<Rightarrow> Inl e
      | Inr encoded_size \<Rightarrow>
          (case call_get g m (pair + 4) of
             Inl e \<Rightarrow> Inl e
           | Inr decoded_size \<Rightarrow>
               if encoded_size \<noteq> 0 \<and> decoded_size \<noteq> 0
               then size_loop g m (pair + encoded_size)
               else Inr (pair + 4 + 4)))"
  by pat_completeness auto
termination
proof (relation "measure (\<lambda>(g, m, pair). length m - pair)", goal_cases)
  case 1
  show ?case by simp
next
  case (2 g m pair encoded_size decoded_size)
  then show ?case
    by (cases g) (auto simp: be32dec_def load32_def readb_def bindf_def split: if_splits)
qed

text \<open>\<^verbatim>\<open>nvlist_size\<close>: the difference \<^verbatim>\<open>p - stream\<close>, returned as an \<^verbatim>\<open>int\<close>.\<close>

definition nvlist_size :: "xdr \<Rightarrow> byte list \<Rightarrow> nat \<Rightarrow> fault + int" where
  "nvlist_size xdr m stream =
     bindf (size_loop (xdr_getuint xdr) m (stream + 2 * 4)) (\<lambda>p. Inr (to_int32 (p - stream)))"

text \<open>The conversion of an \<^verbatim>\<open>int\<close> to \<^verbatim>\<open>size_t\<close>.\<close>

definition to_size_t :: "int \<Rightarrow> nat" where
  "to_size_t i = nat (i mod 2 ^ 64)"

subsection \<open>The pair codec\<close>

text \<open>
  \<^verbatim>\<open>nvlist_xdr_nvp\<close> and \<^verbatim>\<open>nvlist_xdr_nvlist\<close> work in place on the buffer \<open>m\<close>; the
  cursor \<^verbatim>\<open>nv_idx\<close> is an offset.  A string length of \<open>2 ^ 31\<close> or more moves the cursor
  backwards, so these loops need not end; they are defined with fuel, and \<open>OutOfFuel\<close>
  is the run that did not finish within it.  The four functions are the body of
  \<^verbatim>\<open>nvlist_xdr_nvp\<close>, its \<^verbatim>\<open>for\<close> loop over the elements of a nested list, the \<^verbatim>\<open>while\<close>
  loop of \<^verbatim>\<open>nvlist_xdr_nvlist\<close>, and \<^verbatim>\<open>nvlist_xdr_nvlist\<close> itself.  The results are the
  return value, the memory and the cursor.
\<close>

definition xdr_value ::
  "(xdr \<Rightarrow> byte list \<Rightarrow> nat \<Rightarrow> fault + (int \<times> byte list)) \<Rightarrow> xdr \<Rightarrow> byte list \<Rightarrow> nat \<Rightarrow> nat
     \<Rightarrow> fault + (errno \<times> byte list \<times> nat)" where
  "xdr_value f xdr m buf idx =
     bindf (f xdr m buf) (\<lambda>(rv, m'). bindf (advance idx rv) (\<lambda>idx'. Inr (OK, m', idx')))"

text \<open>
  The first part of \<^verbatim>\<open>nvlist_xdr_nvp\<close>: the name, the type and the number of elements.
  The results are the memory, \<^verbatim>\<open>nvp_data\<close>, the cursor, \<^verbatim>\<open>type\<close> and \<^verbatim>\<open>nelem\<close>.
\<close>

definition nvp_head ::
  "xdr \<Rightarrow> byte list \<Rightarrow> nat \<Rightarrow> fault + (byte list \<times> nat \<times> nat \<times> nat \<times> nat)" where
  "nvp_head xdr m idx =
     bindf (xdr_string xdr m idx) (\<lambda>(rv, m1).
     bindf (advance idx rv) (\<lambda>nvp_data.
     bindf (load32 m1 nvp_data) (\<lambda>type0.
     bindf (load32 m1 (nvp_data + 4)) (\<lambda>nelem0.
     bindf (xdr_u_int xdr m1 nvp_data type0) (\<lambda>(rv, m2, type).
     bindf (advance nvp_data rv) (\<lambda>idx2.
     bindf (xdr_u_int xdr m2 idx2 nelem0) (\<lambda>(rv, m3, nelem).
     bindf (advance idx2 rv) (\<lambda>idx3. Inr (m3, nvp_data, idx3, type, nelem)))))))))"

text \<open>The cases of the \<^verbatim>\<open>switch\<close> other than the nested lists.\<close>

definition nvp_value ::
  "xdr \<Rightarrow> byte list \<Rightarrow> nat \<Rightarrow> nat \<Rightarrow> nat \<Rightarrow> fault + (errno \<times> byte list \<times> nat)" where
  "nvp_value xdr m nvp_data idx type =
     (if type = DATA_TYPE_BOOLEAN
        then Inr (OK, m, idx)
      else if type = DATA_TYPE_BYTE \<or> type = DATA_TYPE_INT8 \<or> type = DATA_TYPE_UINT8
        then xdr_value xdr_char xdr m (nvp_data + 8) idx
      else if type = DATA_TYPE_INT16
        then xdr_value xdr_short xdr m (nvp_data + 8) idx
      else if type = DATA_TYPE_UINT16
        then xdr_value xdr_u_short xdr m (nvp_data + 8) idx
      else if type = DATA_TYPE_BOOLEAN_VALUE \<or> type = DATA_TYPE_INT32
        then xdr_value xdr_int_inplace xdr m (nvp_data + 8) idx
      else if type = DATA_TYPE_UINT32
        then xdr_value xdr_int_inplace xdr m (nvp_data + 8) idx
      else if type = DATA_TYPE_INT64
        then xdr_value xdr_int64 xdr m (nvp_data + 8) idx
      else if type = DATA_TYPE_UINT64
        then xdr_value xdr_uint64 xdr m (nvp_data + 8) idx
      else if type = DATA_TYPE_STRING
        then xdr_value xdr_string xdr m (nvp_data + 8) idx
      else Inr (OK, m, idx))"

text \<open>
  The translation of the pair header at \<open>nvph\<close>, in \<^verbatim>\<open>nvlist_xdr_nvlist\<close>: the results
  are the memory, \<^verbatim>\<open>encoded_size\<close> and \<^verbatim>\<open>decoded_size\<close>.
\<close>

definition xdr_nvp_header :: "xdr \<Rightarrow> byte list \<Rightarrow> nat \<Rightarrow> fault + (byte list \<times> nat \<times> nat)" where
  "xdr_nvp_header xdr m nvph =
     (case xdr_op xdr of
        XDR_OP_ENCODE \<Rightarrow>
          bindf (load32 m nvph) (\<lambda>encoded_size.
          bindf (load32 m (nvph + 4)) (\<lambda>decoded_size.
          bindf (call_put (xdr_putuint xdr) m nvph encoded_size) (\<lambda>m1.
          bindf (call_put (xdr_putuint xdr) m1 (nvph + 4) decoded_size) (\<lambda>m2.
            Inr (m2, encoded_size, decoded_size)))))
      | XDR_OP_DECODE \<Rightarrow>
          bindf (call_get (xdr_getuint xdr) m nvph) (\<lambda>e.
          bindf (store32 m nvph e) (\<lambda>m1.
          bindf (call_get (xdr_getuint xdr) m1 (nvph + 4)) (\<lambda>d.
          bindf (store32 m1 (nvph + 4) d) (\<lambda>m2.
          bindf (load32 m2 nvph) (\<lambda>encoded_size.
          bindf (load32 m2 (nvph + 4)) (\<lambda>decoded_size.
            Inr (m2, encoded_size, decoded_size))))))))"

text \<open>The translation of \<^verbatim>\<open>nvl_version\<close> and \<^verbatim>\<open>nvl_nvflag\<close>.\<close>

definition xdr_nvs_head :: "xdr \<Rightarrow> byte list \<Rightarrow> nat \<Rightarrow> fault + byte list" where
  "xdr_nvs_head xdr m data =
     (case xdr_op xdr of
        XDR_OP_ENCODE \<Rightarrow>
          bindf (load32 m data) (\<lambda>nvl_version.
          bindf (call_put (xdr_putuint xdr) m data nvl_version) (\<lambda>m1.
          bindf (load32 m1 (data + 4)) (\<lambda>nvl_nvflag.
            call_put (xdr_putuint xdr) m1 (data + 4) nvl_nvflag)))
      | XDR_OP_DECODE \<Rightarrow>
          bindf (call_get (xdr_getuint xdr) m data) (\<lambda>v.
          bindf (store32 m data v) (\<lambda>m1.
          bindf (call_get (xdr_getuint xdr) m1 (data + 4)) (\<lambda>f.
            store32 m1 (data + 4) f))))"

function (sequential) nvlist_xdr_nvp :: "nat \<Rightarrow> xdr \<Rightarrow> byte list \<Rightarrow> nat \<Rightarrow> fault + (errno \<times> byte list \<times> nat)"
  and nvp_for :: "nat \<Rightarrow> xdr \<Rightarrow> byte list \<Rightarrow> nat \<Rightarrow> nat \<Rightarrow> nat \<Rightarrow> nat
        \<Rightarrow> fault + (errno \<times> byte list \<times> nat)"
  and nvlist_while :: "nat \<Rightarrow> xdr \<Rightarrow> byte list \<Rightarrow> nat \<Rightarrow> nat \<Rightarrow> nat
        \<Rightarrow> fault + (errno \<times> byte list \<times> nat)"
  and nvlist_xdr_nvlist :: "nat \<Rightarrow> xdr \<Rightarrow> byte list \<Rightarrow> nat \<Rightarrow> fault + (errno \<times> byte list \<times> nat)"
where
  "nvlist_xdr_nvp 0 xdr m idx = Inl OutOfFuel"
| "nvlist_xdr_nvp (Suc fuel) xdr m idx =
     bindf (nvp_head xdr m idx) (\<lambda>(m3, nvp_data, idx3, type, nelem).
       if type = DATA_TYPE_NVLIST \<or> type = DATA_TYPE_NVLIST_ARRAY
       then nvp_for fuel xdr m3 (nvp_data + 8) idx3 0 nelem
       else nvp_value xdr m3 nvp_data idx3 type)"
| "nvp_for 0 xdr m data idx i nelem = Inl OutOfFuel"
| "nvp_for (Suc fuel) xdr m data idx i nelem =
     (if i < nelem
      then bindf (nvlist_size (if xdr_op xdr = XDR_OP_ENCODE then xdrmem else xdr) m data) (\<lambda>asize.
           bindf (nvlist_xdr_nvlist fuel xdr m data) (\<lambda>(rv, m', idx').
             nvp_for fuel xdr m' idx' idx' ((i + 1) mod 2 ^ 32) nelem))
      else Inr (OK, m, idx))"
| "nvlist_while 0 xdr m idx encoded_size decoded_size = Inl OutOfFuel"
| "nvlist_while (Suc fuel) xdr m idx encoded_size decoded_size =
     (if encoded_size \<noteq> 0 \<and> decoded_size \<noteq> 0
      then bindf (nvlist_xdr_nvp fuel xdr m idx) (\<lambda>(rv, m1, nvph).
           if rv \<noteq> OK then Inr (rv, m1, nvph)
           else bindf (xdr_nvp_header xdr m1 nvph) (\<lambda>(m2, encoded_size, decoded_size).
                  nvlist_while fuel xdr m2 (nvph + 4 + 4) encoded_size decoded_size))
      else Inr (OK, m, idx))"
| "nvlist_xdr_nvlist 0 xdr m data = Inl OutOfFuel"
| "nvlist_xdr_nvlist (Suc fuel) xdr m data =
     bindf (xdr_nvs_head xdr m data) (\<lambda>m1.
     bindf (xdr_nvp_header xdr m1 (data + 8)) (\<lambda>(m2, encoded_size, decoded_size).
       nvlist_while fuel xdr m2 (data + 16) encoded_size decoded_size))"

  by pat_completeness auto
termination
  by (relation "measure (\<lambda>x. case x of
          Inl (Inl (fuel, _)) \<Rightarrow> fuel | Inl (Inr (fuel, _)) \<Rightarrow> fuel
        | Inr (Inl (fuel, _)) \<Rightarrow> fuel | Inr (Inr (fuel, _)) \<Rightarrow> fuel)") auto

subsection \<open>Export and import\<close>

text \<open>\<^verbatim>\<open>nvlist_export\<close>; a null \<^verbatim>\<open>nv_data\<close> is dereferenced by the codec.\<close>

definition nvlist_export :: "nat \<Rightarrow> nvlist \<Rightarrow> fault + (errno \<times> nvlist)" where
  "nvlist_export fuel nvl =
     (if nvh_encoding (nv_header nvl) \<noteq> NV_ENCODE_XDR then Inr (ENOTSUP, nvl)
      else case nv_data nvl of
             None \<Rightarrow> Inl BadAccess
           | Some m \<Rightarrow>
               bindf (nvlist_xdr_nvlist fuel xdr_export m 0) (\<lambda>(rv, m', idx).
                 Inr (rv, nvl\<lparr>nv_data := Some m', nv_idx := Some idx\<rparr>)))"

text \<open>
  The check of the head in \<^verbatim>\<open>nvlist_import\<close>: the disjunction is evaluated from the
  left and stops at the first operand that holds.  The result tells whether the head
  is accepted.
\<close>

definition import_head_ok :: "byte list \<Rightarrow> fault + bool" where
  "import_head_ok stream =
     bindf (readb stream 0 1) (\<lambda>b0. if b0 \<noteq> [NV_ENCODE_XDR] then Inr False else
     bindf (readb stream 1 1) (\<lambda>b1. if b1 \<noteq> [0] \<and> b1 \<noteq> [1] then Inr False else
     bindf (readb stream 2 1) (\<lambda>b2. if b2 \<noteq> [0] then Inr False else
     bindf (readb stream 3 1) (\<lambda>b3. if b3 \<noteq> [0] then Inr False else
     bindf (be32dec stream 4) (\<lambda>v. if v \<noteq> NV_VERSION then Inr False else
     bindf (be32dec stream 8) (\<lambda>f. Inr (f = NV_UNIQUE_NAME)))))))"

text \<open>
  \<^verbatim>\<open>nvlist_import\<close>; \<open>a1\<close> and \<open>a2\<close> tell whether the two calls of malloc succeed, and
  the result \<open>None\<close> is the null pointer.  The stream is the list of the bytes that are
  there to be read; the function receives no length.
\<close>

definition nvlist_import :: "nat \<Rightarrow> bool \<Rightarrow> bool \<Rightarrow> byte list \<Rightarrow> fault + nvlist option" where
  "nvlist_import fuel a1 a2 stream =
     bindf (import_head_ok stream) (\<lambda>ok.
       if \<not> ok then Inr None
       else if \<not> a1 then Inr None
       else
         bindf (nvlist_size xdr_import stream 4) (\<lambda>sz.
           if \<not> a2 then Inr None
           else
             bindf (readb stream 4 (to_size_t sz)) (\<lambda>m.
             bindf (nvlist_xdr_nvlist fuel xdr_import m 0) (\<lambda>(rv, m', idx).
               if rv = OK
               then Inr (Some \<lparr>nv_header =
                                 \<lparr>nvh_encoding = stream ! 0, nvh_endian = stream ! 1,
                                  nvh_reserved1 = stream ! 2, nvh_reserved2 = stream ! 3\<rparr>,
                               nv_asize = to_size_t sz, nv_size = to_size_t sz,
                               nv_data = Some m', nv_idx = Some 0\<rparr>)
               else Inr None))))"

subsection \<open>Walking the pairs of a list\<close>

text \<open>The loop condition \<^verbatim>\<open>nvp->encoded_size != 0 && nvp->decoded_size != 0\<close>.\<close>

definition pair_present :: "byte list \<Rightarrow> nat \<Rightarrow> fault + bool" where
  "pair_present m nvp =
     bindf (load32 m nvp) (\<lambda>encoded_size.
       if encoded_size = 0 then Inr False
       else bindf (load32 m (nvp + 4)) (\<lambda>decoded_size. Inr (decoded_size \<noteq> 0)))"

text \<open>
  \<^verbatim>\<open>memcmp(p, s, n) == 0\<close> for \<open>p\<close> an offset in \<open>m\<close> and \<open>s\<close> the bytes at the other
  pointer: the bytes are compared one by one and the first difference ends the
  comparison, as the loop of libsa's memcmp does.
\<close>

fun memcmp :: "byte list \<Rightarrow> nat \<Rightarrow> byte list \<Rightarrow> nat \<Rightarrow> fault + bool" where
  "memcmp m p s 0 = Inr True"
| "memcmp m p s (Suc n) =
     (if p < length m
      then (case s of
              [] \<Rightarrow> Inl BadAccess
            | c # s' \<Rightarrow> if m ! p = c then memcmp m (p + 1) s' n else Inr False)
      else Inl BadAccess)"

text \<open>The offset of \<^verbatim>\<open>nvp_data\<close> of the pair at \<open>nvp\<close>.\<close>

definition nvp_data_of :: "byte list \<Rightarrow> nat \<Rightarrow> fault + nat" where
  "nvp_data_of m nvp =
     bindf (load32 m (nvp + sizeof_nvp_header)) (\<lambda>nv_size.
       Inr (NV_ALIGN4 (nvp + sizeof_nvp_header + 4 + nv_size)))"

text \<open>
  The test of \<^verbatim>\<open>nvlist_remove\<close> and \<^verbatim>\<open>nvlist_find\<close> on the pair at \<open>nvp\<close>:
  \<^verbatim>\<open>memcmp(nvp_name->nv_data, name, nvp_name->nv_size) == 0 && nvp_data->nv_type == type\<close>.
  The name argument is a C string, so a NUL follows its bytes.
\<close>

definition pair_matches :: "byte list \<Rightarrow> nat \<Rightarrow> byte list \<Rightarrow> nat \<Rightarrow> fault + bool" where
  "pair_matches m nvp name type =
     bindf (load32 m (nvp + sizeof_nvp_header)) (\<lambda>nv_size.
     bindf (nvp_data_of m nvp) (\<lambda>nvp_data.
     bindf (memcmp m (nvp + sizeof_nvp_header + 4) (c_str name @ [0]) nv_size) (\<lambda>eq.
       if eq then bindf (load32 m nvp_data) (\<lambda>nv_type. Inr (nv_type = type))
       else Inr False)))"

text \<open>
  The loop of \<^verbatim>\<open>nvlist_remove\<close> and of \<^verbatim>\<open>nvlist_find\<close>: the offset of the first pair
  that passes the test, or \<open>None\<close> when the end of the list is reached.
\<close>

function find_pair :: "byte list \<Rightarrow> byte list \<Rightarrow> nat \<Rightarrow> nat \<Rightarrow> fault + nat option" where
  "find_pair m name type nvp =
     (case pair_present m nvp of
        Inl e \<Rightarrow> Inl e
      | Inr False \<Rightarrow> Inr None
      | Inr True \<Rightarrow>
          (case pair_matches m nvp name type of
             Inl e \<Rightarrow> Inl e
           | Inr True \<Rightarrow> Inr (Some nvp)
           | Inr False \<Rightarrow>
               (case load32 m nvp of
                  Inl e \<Rightarrow> Inl e
                | Inr encoded_size \<Rightarrow> find_pair m name type (nvp + encoded_size))))"
  by pat_completeness auto
termination
  by (relation "measure (\<lambda>(m, name, type, nvp). length m - nvp)")
     (auto simp: pair_present_def load32_def readb_def bindf_def split: if_splits)


subsection \<open>Removing and finding a pair\<close>

text \<open>Subtraction of \<^verbatim>\<open>size_t\<close> values, which wraps around below zero.\<close>

definition size_sub :: "nat \<Rightarrow> nat \<Rightarrow> nat" where
  "size_sub a b = (if b \<le> a then a - b else a + 2 ^ 64 - b)"

text \<open>
  \<^verbatim>\<open>nvlist_remove\<close> after its test for null pointers, on the handle \<open>nvl\<close> with a name
  that is not null.  \<^verbatim>\<open>bcopy\<close> reads its source before it writes.
\<close>

definition remove_nvl :: "nvlist \<Rightarrow> byte list \<Rightarrow> nat \<Rightarrow> fault + (errno \<times> nvlist)" where
  "remove_nvl nvl name type =
     (case nv_data nvl of
        None \<Rightarrow> Inr (EINVAL, nvl)
      | Some m \<Rightarrow>
          bindf (find_pair m name type (2 * 4)) (\<lambda>r.
            case r of
              None \<Rightarrow> Inr (ENOENT, nvl)
            | Some head \<Rightarrow>
                bindf (load32 m head) (\<lambda>encoded_size.
                  let tail = head + encoded_size;
                      size = size_sub (nv_size nvl) tail
                  in bindf (readb m tail size) (\<lambda>bs.
                     bindf (writeb m head bs) (\<lambda>m'.
                       Inr (OK, nvl\<lparr>nv_size := size_sub (nv_size nvl) encoded_size,
                                    nv_data := Some m'\<rparr>))))))"

definition nvlist_remove ::
  "nvlist option \<Rightarrow> byte list option \<Rightarrow> nat \<Rightarrow> fault + (errno \<times> nvlist option)" where
  "nvlist_remove nvlp namep type =
     (case nvlp of
        None \<Rightarrow> Inr (EINVAL, nvlp)
      | Some nvl \<Rightarrow>
          (case namep of
             None \<Rightarrow> Inr (EINVAL, nvlp)
           | Some name \<Rightarrow> bindf (remove_nvl nvl name type) (\<lambda>(rv, nvl'). Inr (rv, Some nvl'))))"

text \<open>
  What \<^verbatim>\<open>nvlist_find\<close> stores through \<^verbatim>\<open>elementsp\<close>, \<^verbatim>\<open>valuep\<close> and \<^verbatim>\<open>sizep\<close> (all
  taken to be given); \<open>None\<close> is a location that is not written.  A string value is a
  pointer into the buffer.
\<close>

datatype nv_value = VAL_UINT64 nat | VAL_STRING "byte list" | VAL_NVLIST nvlist

record find_out =
  elements :: "nat option"
  val :: "nv_value option"
  vsize :: "nat option"

definition no_out :: find_out where
  "no_out = \<lparr>elements = None, val = None, vsize = None\<rparr>"

text \<open>\<^verbatim>\<open>nvlist_find\<close>; \<open>a\<close> tells whether the malloc of a nested handle succeeds.\<close>

definition find_nvl :: "bool \<Rightarrow> nvlist \<Rightarrow> byte list \<Rightarrow> nat \<Rightarrow> fault + (errno \<times> find_out)" where
  "find_nvl a nvl name type =
     (case nv_data nvl of
        None \<Rightarrow> Inr (EINVAL, no_out)
      | Some m \<Rightarrow>
          bindf (find_pair m name type (2 * 4)) (\<lambda>r.
            case r of
              None \<Rightarrow> Inr (ENOENT, no_out)
            | Some nvp \<Rightarrow>
                bindf (nvp_data_of m nvp) (\<lambda>nvp_data.
                bindf (load32 m (nvp_data + 4)) (\<lambda>nv_nelem.
                bindf (load32 m nvp_data) (\<lambda>nv_type.
                  if nv_type = DATA_TYPE_UINT64 then
                    bindf (load64 m (nvp_data + 8)) (\<lambda>v.
                      Inr (OK, \<lparr>elements = Some nv_nelem, val = Some (VAL_UINT64 v),
                                vsize = None\<rparr>))
                  else if nv_type = DATA_TYPE_STRING then
                    bindf (load32 m (nvp_data + 8)) (\<lambda>n.
                      Inr (OK, \<lparr>elements = Some nv_nelem,
                                val = Some (VAL_STRING (drop (nvp_data + 8 + 4) m)),
                                vsize = Some n\<rparr>))
                  else if nv_type = DATA_TYPE_NVLIST \<or> nv_type = DATA_TYPE_NVLIST_ARRAY then
                    (if a
                     then Inr (OK, \<lparr>elements = Some nv_nelem,
                               val = Some (VAL_NVLIST \<lparr>nv_header = nv_header nvl, nv_asize = 0,
                                        nv_size = 0, nv_data = Some (drop (nvp_data + 8) m),
                                        nv_idx = None\<rparr>),
                               vsize = None\<rparr>)
                     else Inr (ENOMEM, \<lparr>elements = Some nv_nelem, val = None, vsize = None\<rparr>))
                  else Inr (EIO, \<lparr>elements = Some nv_nelem, val = None, vsize = None\<rparr>))))))"

definition nvlist_find ::
  "bool \<Rightarrow> nvlist option \<Rightarrow> byte list option \<Rightarrow> nat \<Rightarrow> fault + (errno \<times> find_out)" where
  "nvlist_find a nvlp namep type =
     (case nvlp of
        None \<Rightarrow> Inr (EINVAL, no_out)
      | Some nvl \<Rightarrow>
          (case namep of
             None \<Rightarrow> Inr (EINVAL, no_out)
           | Some name \<Rightarrow> find_nvl a nvl name type))"

subsection \<open>Adding a pair\<close>

text \<open>
  The outcome of realloc: it fails, or it returns a block with the old contents and
  \<open>junk\<close> in the bytes that are new.
\<close>

datatype alloc = ALLOC_FAIL | ALLOC_OK "nat \<Rightarrow> byte"

definition realloc :: "alloc \<Rightarrow> byte list \<Rightarrow> nat \<Rightarrow> byte list option" where
  "realloc a m n =
     (case a of
        ALLOC_FAIL \<Rightarrow> None
      | ALLOC_OK junk \<Rightarrow> Some (take n m @ map junk [0..<n - length m]))"

text \<open>
  The part that \<^verbatim>\<open>nvlist_add_uint64\<close> and \<^verbatim>\<open>nvlist_add_string\<close> have in common, from
  the test of the free space to the store of the number of elements; \<open>encoded_size\<close>
  and \<open>decoded_size\<close> are the fields of \<^verbatim>\<open>head\<close>.  First the writes, from \<^verbatim>\<open>bzero\<close> on,
  with \<open>idx\<close> the offset of the old terminator: \<^verbatim>\<open>strlcpy\<close> with the size
  \<^verbatim>\<open>namelen + 1\<close> writes the name and a NUL.
\<close>

definition write_pair_head ::
  "byte list \<Rightarrow> nat \<Rightarrow> byte list \<Rightarrow> nat \<Rightarrow> nat \<Rightarrow> nat \<Rightarrow> fault + byte list" where
  "write_pair_head m0 idx name type encoded_size decoded_size =
     bindf (writeb m0 idx (replicate ((encoded_size + 8) mod 2 ^ 32) 0)) (\<lambda>m1.
     bindf (store32 m1 idx encoded_size) (\<lambda>m2.
     bindf (store32 m2 (idx + 4) decoded_size) (\<lambda>m3.
     bindf (store32 m3 (idx + 8) (strlen name)) (\<lambda>m4.
     bindf (writeb m4 (idx + 12) (c_str name @ [0])) (\<lambda>m5.
     bindf (store32 m5 (idx + 12 + NV_ALIGN4 (strlen name)) type) (\<lambda>m6.
       store32 m6 (idx + 12 + NV_ALIGN4 (strlen name) + 4) 1))))))"

definition add_pair_head ::
  "alloc \<Rightarrow> nvlist \<Rightarrow> byte list \<Rightarrow> nat \<Rightarrow> nat \<Rightarrow> nat \<Rightarrow> fault + (errno \<times> nvlist)" where
  "add_pair_head a nvl name type encoded_size decoded_size =
     (case nv_data nvl of
        None \<Rightarrow> Inl BadAccess
      | Some m \<Rightarrow>
          (case (if size_sub (nv_asize nvl) (nv_size nvl) < (encoded_size + 8) mod 2 ^ 32
                 then map_option (\<lambda>ptr. (ptr, nv_asize nvl + encoded_size))
                        (realloc a m (nv_asize nvl + encoded_size))
                 else Some (m, nv_asize nvl)) of
             None \<Rightarrow> Inr (ENOMEM, nvl)
           | Some (m0, asize) \<Rightarrow>
               if nv_size nvl < sizeof_nvp_header then Inl BadAccess
               else
                 let idx = nv_size nvl - sizeof_nvp_header in
                 bindf (write_pair_head m0 idx name type encoded_size decoded_size) (\<lambda>m7.
                   Inr (OK, nvl\<lparr>nv_asize := asize, nv_data := Some m7,
                        nv_idx := Some (idx + 12 + NV_ALIGN4 (strlen name) + 4 + 4)\<rparr>))))"

text \<open>
  The first statements of both functions: under \<^verbatim>\<open>NV_UNIQUE_NAME\<close> a pair of this
  name and type is removed, and the result of \<^verbatim>\<open>nvlist_remove\<close> is dropped.
\<close>

definition add_unique :: "nvlist \<Rightarrow> byte list \<Rightarrow> nat \<Rightarrow> fault + nvlist" where
  "add_unique nvl name type =
     (case nv_data nvl of
        None \<Rightarrow> Inl BadAccess
      | Some m \<Rightarrow>
          bindf (load32 m 4) (\<lambda>nvl_nvflag.
            if nvl_nvflag mod 2 \<noteq> 0
            then bindf (remove_nvl nvl name type) (\<lambda>(rv, nvl'). Inr nvl')
            else Inr nvl))"

definition nvlist_add_uint64 :: "alloc \<Rightarrow> nvlist \<Rightarrow> byte list \<Rightarrow> nat \<Rightarrow> fault + (errno \<times> nvlist)" where
  "nvlist_add_uint64 a nvl name v =
     bindf (add_unique nvl name DATA_TYPE_UINT64) (\<lambda>nvl1.
       let namelen = strlen name;
           valuelen = 8;
           encoded_size = (4 + 4 + 4 + NV_ALIGN4 namelen + 4 + 4 + 4 + NV_ALIGN (valuelen + 1))
                            mod 2 ^ 32;
           decoded_size = (NV_ALIGN (4 * 4 + namelen + 1) + valuelen) mod 2 ^ 32
       in bindf (add_pair_head a nvl1 name DATA_TYPE_UINT64 encoded_size decoded_size) (\<lambda>(rv, nvl2).
            if rv \<noteq> OK then Inr (rv, nvl2)
            else case (nv_data nvl2, nv_idx nvl2) of
                   (Some m, Some idx) \<Rightarrow>
                     bindf (store64 m idx v) (\<lambda>m'.
                       Inr (OK, nvl2\<lparr>nv_size := nv_size nvl2 + encoded_size,
                                     nv_data := Some m'\<rparr>))
                 | _ \<Rightarrow> Inl BadAccess))"

definition nvlist_add_string ::
  "alloc \<Rightarrow> nvlist \<Rightarrow> byte list \<Rightarrow> byte list \<Rightarrow> fault + (errno \<times> nvlist)" where
  "nvlist_add_string a nvl name v =
     bindf (add_unique nvl name DATA_TYPE_STRING) (\<lambda>nvl1.
       let namelen = strlen name;
           valuelen = strlen v;
           encoded_size = (4 + 4 + 4 + NV_ALIGN4 namelen + 4 + 4 + 4 + NV_ALIGN (valuelen + 1))
                            mod 2 ^ 32;
           decoded_size = (NV_ALIGN (4 * 4 + namelen + 1) + NV_ALIGN (valuelen + 1)) mod 2 ^ 32
       in bindf (add_pair_head a nvl1 name DATA_TYPE_STRING encoded_size decoded_size) (\<lambda>(rv, nvl2).
            if rv \<noteq> OK then Inr (rv, nvl2)
            else case (nv_data nvl2, nv_idx nvl2) of
                   (Some m, Some idx) \<Rightarrow>
                     bindf (store32 m idx valuelen) (\<lambda>m1.
                     bindf (writeb m1 (idx + 4) (c_str v @ [0])) (\<lambda>m2.
                       Inr (OK, nvl2\<lparr>nv_size := nv_size nvl2 + encoded_size,
                                     nv_data := Some m2,
                                     nv_idx := Some (idx + 4 + NV_ALIGN4 valuelen)\<rparr>)))
                 | _ \<Rightarrow> Inl BadAccess))"

subsection \<open>The next list of an array\<close>

function list_end :: "byte list \<Rightarrow> nat \<Rightarrow> fault + nat" where
  "list_end m nvp =
     (case pair_present m nvp of
        Inl e \<Rightarrow> Inl e
      | Inr False \<Rightarrow> Inr nvp
      | Inr True \<Rightarrow>
          (case load32 m nvp of
             Inl e \<Rightarrow> Inl e
           | Inr encoded_size \<Rightarrow> list_end m (nvp + encoded_size)))"
  by pat_completeness auto
termination
  by (relation "measure (\<lambda>(m, nvp). length m - nvp)")
     (auto simp: pair_present_def load32_def readb_def bindf_def split: if_splits)

definition nvlist_next :: "nvlist option \<Rightarrow> fault + (errno \<times> nvlist option)" where
  "nvlist_next nvlp =
     (case nvlp of
        None \<Rightarrow> Inr (EINVAL, nvlp)
      | Some nvl \<Rightarrow>
          (case nv_data nvl of
             None \<Rightarrow> Inr (EINVAL, nvlp)
           | Some m \<Rightarrow>
               if nv_asize nvl \<noteq> 0 then Inr (EINVAL, nvlp)
               else bindf (list_end m (2 * 4)) (\<lambda>nvp.
                      Inr (OK, Some (nvl\<lparr>nv_data := Some (drop (nvp + sizeof_nvp_header) m)\<rparr>)))))"

subsection \<open>Sequences of calls and the stream of a list\<close>

text \<open>
  A call of one of the three functions that change a list, on a handle and with a name
  that are not null; for the two functions that add a pair, with the outcome of
  realloc.  \<open>calls\<close> runs a sequence of calls and drops their return values, as a
  caller that goes on after \<^verbatim>\<open>ENOMEM\<close> or \<^verbatim>\<open>ENOENT\<close> does.
\<close>

datatype nv_call =
  ADD_UINT64 alloc "byte list" nat
| ADD_STRING alloc "byte list" "byte list"
| REMOVE "byte list" nat

fun call :: "nvlist \<Rightarrow> nv_call \<Rightarrow> fault + nvlist" where
  "call nvl (ADD_UINT64 a name v) = bindf (nvlist_add_uint64 a nvl name v) (\<lambda>(rv, nvl'). Inr nvl')"
| "call nvl (ADD_STRING a name s) = bindf (nvlist_add_string a nvl name s) (\<lambda>(rv, nvl'). Inr nvl')"
| "call nvl (REMOVE name type) = bindf (remove_nvl nvl name type) (\<lambda>(rv, nvl'). Inr nvl')"

fun calls :: "nvlist \<Rightarrow> nv_call list \<Rightarrow> fault + nvlist" where
  "calls nvl [] = Inr nvl"
| "calls nvl (c # cs) = bindf (call nvl c) (\<lambda>nvl'. calls nvl' cs)"

text \<open>
  Modelled from the spec: the code that writes a list to the label is not among the
  sources.  The stream of a list is its 4-byte envelope header followed by the used
  part of its buffer.
\<close>

definition stream_of :: "nvlist \<Rightarrow> byte list" where
  "stream_of nvl =
     [nvh_encoding (nv_header nvl), nvh_endian (nv_header nvl),
      nvh_reserved1 (nv_header nvl), nvh_reserved2 (nv_header nvl)]
     @ (case nv_data nvl of None \<Rightarrow> [] | Some m \<Rightarrow> take (nv_size nvl) m)"

text \<open>
  The name and the type of the pair at \<open>nvp\<close>, read as \<^verbatim>\<open>nvlist_print\<close> reads them, and
  the names and types of all pairs from \<open>nvp\<close> on, in the order of its loop.
\<close>

definition pair_key :: "byte list \<Rightarrow> nat \<Rightarrow> fault + (byte list \<times> nat)" where
  "pair_key m nvp =
     bindf (load32 m (nvp + sizeof_nvp_header)) (\<lambda>nv_size.
     bindf (nvp_data_of m nvp) (\<lambda>nvp_data.
     bindf (load32 m nvp_data) (\<lambda>nv_type.
     bindf (readb m (nvp + sizeof_nvp_header + 4) nv_size) (\<lambda>name. Inr (name, nv_type)))))"

function pair_keys :: "byte list \<Rightarrow> nat \<Rightarrow> fault + (byte list \<times> nat) list" where
  "pair_keys m nvp =
     (case pair_present m nvp of
        Inl e \<Rightarrow> Inl e
      | Inr False \<Rightarrow> Inr []
      | Inr True \<Rightarrow>
          (case pair_key m nvp of
             Inl e \<Rightarrow> Inl e
           | Inr k \<Rightarrow>
               (case load32 m nvp of
                  Inl e \<Rightarrow> Inl e
                | Inr encoded_size \<Rightarrow>
                    (case pair_keys m (nvp + encoded_size) of
                       Inl e \<Rightarrow> Inl e
                     | Inr ks \<Rightarrow> Inr (k # ks)))))"
  by pat_completeness auto
termination
  by (relation "measure (\<lambda>(m, nvp). length m - nvp)")
     (auto simp: pair_present_def load32_def readb_def bindf_def split: if_splits)

text \<open>
  The headers that the loops over a list visit, from the first pair to the terminator:
  \<open>hs\<close> is such a chain when every header but the last passes the loop condition and
  its \<^verbatim>\<open>encoded_size\<close> is the distance to the next header, and the last header ends
  the loop.
\<close>

definition pair_chain :: "byte list \<Rightarrow> nat list \<Rightarrow> bool" where
  "pair_chain m hs \<longleftrightarrow>
     hs \<noteq> [] \<and>
     (\<forall>i. Suc i < length hs \<longrightarrow>
        pair_present m (hs ! i) = Inr True \<and>
        load32 m (hs ! i) = Inr (hs ! Suc i - hs ! i) \<and> hs ! i < hs ! Suc i) \<and>
     pair_present m (last hs) = Inr False"

text \<open>
  The names and values that fit: the lengths are below \<open>2 ^ 30\<close>, so that the sizes of
  the pair do not wrap around in their 32-bit fields.
\<close>

fun call_fits :: "nv_call \<Rightarrow> bool" where
  "call_fits (ADD_UINT64 a name v) \<longleftrightarrow> strlen name < 2 ^ 30"
| "call_fits (ADD_STRING a name s) \<longleftrightarrow> strlen name < 2 ^ 30 \<and> strlen s < 2 ^ 30"
| "call_fits (REMOVE name type) \<longleftrightarrow> True"

text \<open>The bytes of a string literal.\<close>

definition bytes_of :: "string \<Rightarrow> byte list" where
  "bytes_of s = map (\<lambda>c. of_nat (of_char c)) s"


section \<open>The layout of a list in its buffer\<close>

text \<open>
  A pair as it lies in the buffer of a list that is not yet exported: its name, its
  type, its field \<^verbatim>\<open>decoded_size\<close> and the bytes that follow the number of elements up
  to the next pair.  \<open>image\<close> gives the bytes of the pair, \<open>layout\<close> the used part of
  the buffer of a list with the given flags and pairs.
\<close>

datatype apair = AP (ap_name: "byte list") (ap_type: nat) (ap_dec: nat) (ap_payload: "byte list")

definition psize :: "apair \<Rightarrow> nat" where
  "psize p = 20 + NV_ALIGN4 (length (ap_name p)) + length (ap_payload p)"

definition image :: "apair \<Rightarrow> byte list" where
  "image p =
     le_bytes32 (psize p) @ le_bytes32 (ap_dec p) @ le_bytes32 (length (ap_name p)) @ ap_name p
     @ replicate (NV_ALIGN4 (length (ap_name p)) - length (ap_name p)) 0
     @ le_bytes32 (ap_type p) @ le_bytes32 1 @ ap_payload p"

definition wf_pair :: "apair \<Rightarrow> bool" where
  "wf_pair p \<longleftrightarrow>
     0 \<notin> set (ap_name p) \<and> psize p + 8 < 2 ^ 32 \<and> 0 < ap_dec p \<and> ap_dec p < 2 ^ 32 \<and>
     ap_type p < 2 ^ 32 \<and> 4 dvd length (ap_payload p)"

definition images :: "apair list \<Rightarrow> byte list" where
  "images ps = concat (map image ps)"

definition layout :: "nat \<Rightarrow> apair list \<Rightarrow> byte list" where
  "layout flag ps = le_bytes32 0 @ le_bytes32 flag @ images ps @ replicate 8 0"

definition amatch :: "byte list \<Rightarrow> nat \<Rightarrow> apair \<Rightarrow> bool" where
  "amatch name type p \<longleftrightarrow> prefix (ap_name p) (c_str name) \<and> ap_type p = type"

fun pos_of :: "(apair \<Rightarrow> bool) \<Rightarrow> apair list \<Rightarrow> nat \<Rightarrow> nat option" where
  "pos_of P [] off = None"
| "pos_of P (p # ps) off = (if P p then Some off else pos_of P ps (off + psize p))"

fun remove_first :: "(apair \<Rightarrow> bool) \<Rightarrow> apair list \<Rightarrow> apair list" where
  "remove_first P [] = []"
| "remove_first P (p # ps) = (if P p then ps else p # remove_first P ps)"

definition nvl_inv :: "nat \<Rightarrow> nvlist \<Rightarrow> apair list \<Rightarrow> bool" where
  "nvl_inv flag nvl ps \<longleftrightarrow>
     (\<exists>m. nv_data nvl = Some m \<and> length m = nv_asize nvl \<and> nv_size nvl \<le> length m \<and>
          take (nv_size nvl) m = layout flag ps) \<and>
     (\<forall>p\<in>set ps. wf_pair p) \<and> flag < 2 ^ 32"

definition lhead :: "nat \<Rightarrow> apair list \<Rightarrow> byte list" where
  "lhead flag ps = le_bytes32 0 @ le_bytes32 flag @ images ps"

definition pair_head :: "byte list \<Rightarrow> nat \<Rightarrow> nat \<Rightarrow> nat \<Rightarrow> byte list" where
  "pair_head name type encoded_size decoded_size =
     le_bytes32 encoded_size @ le_bytes32 decoded_size @ le_bytes32 (strlen name)
     @ c_str name @ replicate (NV_ALIGN4 (strlen name) - strlen name) 0
     @ le_bytes32 type @ le_bytes32 1"

definition new_uint64 :: "byte list \<Rightarrow> nat \<Rightarrow> apair" where
  "new_uint64 name v =
     AP (c_str name) DATA_TYPE_UINT64 (NV_ALIGN (4 * 4 + strlen name + 1) + 8)
        (le_bytes64 v @ replicate 12 0)"

definition new_string :: "byte list \<Rightarrow> byte list \<Rightarrow> apair" where
  "new_string name s =
     AP (c_str name) DATA_TYPE_STRING (NV_ALIGN (4 * 4 + strlen name + 1) + NV_ALIGN (strlen s + 1))
        (le_bytes32 (strlen s) @ c_str s @ replicate (NV_ALIGN (strlen s + 1) - strlen s) 0)"

definition unique_ps :: "nat \<Rightarrow> byte list \<Rightarrow> nat \<Rightarrow> apair list \<Rightarrow> apair list" where
  "unique_ps flag name type ps = (if flag mod 2 \<noteq> 0 then remove_first (amatch name type) ps else ps)"

text \<open>
  What a call does to the pairs of a list: \<open>astep flag c ps ps'\<close> holds when the call
  \<open>c\<close> on a list with the pairs \<open>ps\<close> may leave the pairs \<open>ps'\<close>.
\<close>

fun astep :: "nat \<Rightarrow> nv_call \<Rightarrow> apair list \<Rightarrow> apair list \<Rightarrow> bool" where
  "astep flag (ADD_UINT64 a name v) ps ps' \<longleftrightarrow>
     ps' = unique_ps flag name DATA_TYPE_UINT64 ps @ [new_uint64 name v] \<or>
     a = ALLOC_FAIL \<and> ps' = unique_ps flag name DATA_TYPE_UINT64 ps"
| "astep flag (ADD_STRING a name s) ps ps' \<longleftrightarrow>
     ps' = unique_ps flag name DATA_TYPE_STRING ps @ [new_string name s] \<or>
     a = ALLOC_FAIL \<and> ps' = unique_ps flag name DATA_TYPE_STRING ps"
| "astep flag (REMOVE name type) ps ps' \<longleftrightarrow> ps' = remove_first (amatch name type) ps"

text \<open>The offsets of the headers of the pairs \<open>ps\<close> and of the terminator, from \<open>off\<close> on.\<close>

fun offsets :: "nat \<Rightarrow> apair list \<Rightarrow> nat list" where
  "offsets off [] = [off]"
| "offsets off (p # ps) = off # offsets (off + psize p) ps"

text \<open>
  Lists for the examples: the list that \<^verbatim>\<open>nvlist_create(NV_UNIQUE_NAME)\<close> returns, the
  same list after \<^verbatim>\<open>nvlist_add_uint64(nvl, "version", 1)\<close>, and after
  \<^verbatim>\<open>nvlist_add_string(nvl, "freebsd:bootonce", "zfs:tank:")\<close> as well; and a realloc
  that succeeds.
\<close>

abbreviation alloc_ok :: alloc where
  "alloc_ok \<equiv> ALLOC_OK (\<lambda>i. 0)"

abbreviation nvl_created :: nvlist where
  "nvl_created \<equiv>
     \<lparr>nv_header = \<lparr>nvh_encoding = 1, nvh_endian = 1, nvh_reserved1 = 0, nvh_reserved2 = 0\<rparr>,
      nv_asize = 16, nv_size = 16,
      nv_data = Some [0, 0, 0, 0, 1, 0, 0, 0, 0, 0, 0, 0, 0, 0, 0, 0], nv_idx = None\<rparr>"

abbreviation nvl_version :: nvlist where
  "nvl_version \<equiv>
     \<lparr>nv_header = \<lparr>nvh_encoding = 1, nvh_endian = 1, nvh_reserved1 = 0, nvh_reserved2 = 0\<rparr>,
      nv_asize = 64, nv_size = 64,
      nv_data = Some
        [0, 0, 0, 0, 1, 0, 0, 0, 48, 0, 0, 0, 32, 0, 0, 0, 7, 0, 0, 0,
         118, 101, 114, 115, 105, 111, 110, 0, 8, 0, 0, 0, 1, 0, 0, 0,
         1, 0, 0, 0, 0, 0, 0, 0, 0, 0, 0, 0, 0, 0, 0, 0, 0, 0, 0, 0, 0,
         0, 0, 0, 0, 0, 0, 0],
      nv_idx = Some 36\<rparr>"

abbreviation nvl_bootonce :: nvlist where
  "nvl_bootonce \<equiv>
     \<lparr>nv_header = \<lparr>nvh_encoding = 1, nvh_endian = 1, nvh_reserved1 = 0, nvh_reserved2 = 0\<rparr>,
      nv_asize = 120, nv_size = 120,
      nv_data = Some
        [0, 0, 0, 0, 1, 0, 0, 0, 48, 0, 0, 0, 32, 0, 0, 0, 7, 0, 0, 0, 118,
         101, 114, 115, 105, 111, 110, 0, 8, 0, 0, 0, 1, 0, 0, 0, 1, 0, 0, 0,
         0, 0, 0, 0, 0, 0, 0, 0, 0, 0, 0, 0, 0, 0, 0, 0, 56, 0, 0, 0, 56, 0,
         0, 0, 16, 0, 0, 0, 102, 114, 101, 101, 98, 115, 100, 58, 98, 111,
         111, 116, 111, 110, 99, 101, 9, 0, 0, 0, 1, 0, 0, 0, 9, 0, 0, 0,
         122, 102, 115, 58, 116, 97, 110, 107, 58, 0, 0, 0, 0, 0, 0, 0, 0, 0,
         0, 0, 0, 0, 0, 0],
      nv_idx = Some 108\<rparr>"

text \<open>The calls that add a pair, and the name of a call as a C string.\<close>

fun is_add :: "nv_call \<Rightarrow> bool" where
  "is_add (ADD_UINT64 a name v) \<longleftrightarrow> True"
| "is_add (ADD_STRING a name s) \<longleftrightarrow> True"
| "is_add (REMOVE name type) \<longleftrightarrow> False"

fun call_name :: "nv_call \<Rightarrow> byte list" where
  "call_name (ADD_UINT64 a name v) = c_str name"
| "call_name (ADD_STRING a name s) = c_str name"
| "call_name (REMOVE name type) = c_str name"

text \<open>No name of the list is a proper prefix of another one.\<close>

definition prefix_free :: "byte list list \<Rightarrow> bool" where
  "prefix_free ns \<longleftrightarrow> (\<forall>x\<in>set ns. \<forall>y\<in>set ns. prefix x y \<longrightarrow> x = y)"

definition key :: "apair \<Rightarrow> byte list \<times> nat" where
  "key p = (ap_name p, ap_type p)"

text \<open>
  The name and the type that a call is about; whether a call adds its pair whatever the
  free space is, which it does when its realloc does not fail; and the names and types
  that a sequence of calls adds for good: those of the adding calls whose name and type
  no later call of the sequence has.
\<close>

fun call_key :: "nv_call \<Rightarrow> byte list \<times> nat" where
  "call_key (ADD_UINT64 a name v) = (c_str name, DATA_TYPE_UINT64)"
| "call_key (ADD_STRING a name s) = (c_str name, DATA_TYPE_STRING)"
| "call_key (REMOVE name type) = (c_str name, type)"

fun adds :: "nv_call \<Rightarrow> bool" where
  "adds (ADD_UINT64 a name v) \<longleftrightarrow> a \<noteq> ALLOC_FAIL"
| "adds (ADD_STRING a name s) \<longleftrightarrow> a \<noteq> ALLOC_FAIL"
| "adds (REMOVE name type) \<longleftrightarrow> False"

fun kept :: "nv_call list \<Rightarrow> (byte list \<times> nat) list" where
  "kept [] = []"
| "kept (c # cs) =
     (if adds c \<and> call_key c \<notin> set (map call_key cs) then call_key c # kept cs else kept cs)"

text \<open>No name of the pairs \<open>ps\<close> is a proper prefix of the name \<open>name\<close>.\<close>

definition exact_names :: "byte list \<Rightarrow> apair list \<Rightarrow> bool" where
  "exact_names name ps \<longleftrightarrow>
     (\<forall>p\<in>set ps. prefix (ap_name p) (c_str name) \<longrightarrow> ap_name p = c_str name)"


section \<open>Properties\<close>

subsection \<open>Bytes, words and the fields of a pair\<close>

lemma bindf_Inr [simp]: "bindf (Inr x) f = f x" by (simp add: bindf_def)
lemma bindf_Inl [simp]: "bindf (Inl e) f = Inl e" by (simp add: bindf_def)

lemma bindf_eq_Inr: "bindf r f = Inr y \<longleftrightarrow> (\<exists>x. r = Inr x \<and> f x = Inr y)"
  by (cases r) auto

lemma length_le_bytes32 [simp]: "length (le_bytes32 v) = 4"
  by (simp add: le_bytes32_def)

lemma length_le_bytes64 [simp]: "length (le_bytes64 v) = 8"
  by (simp add: le_bytes64_def)

lemma unat_byte_of_nat: "unat (of_nat n :: byte) = n mod 256"
  by (simp add: unat_of_nat)

lemma mod256_step: "(v::nat) mod (256 * k) = v mod 256 + 256 * (v div 256 mod k)"
  by (simp add: mod_mult2_eq)

lemma le_val_le_bytes32 [simp]: "le_val (le_bytes32 v) = v mod 2 ^ 32"
proof -
  have d: "v div 65536 = v div 256 div 256" "v div 16777216 = v div 256 div 256 div 256"
    by (simp_all add: div_mult2_eq)
  have "v mod 2 ^ 32 = v mod (256 * (256 * (256 * 256)))"
    by simp
  also have "\<dots> = v mod 256 + 256 * (v div 256 mod 256 + 256 * (v div 256 div 256 mod 256
                  + 256 * (v div 256 div 256 div 256 mod 256)))"
    by (simp only: mod256_step)
  finally show ?thesis
    by (simp add: le_bytes32_def unat_byte_of_nat d)
qed

lemma le_val_append: "le_val (xs @ ys) = le_val xs + 256 ^ length xs * le_val ys"
  by (induction xs) (auto simp: algebra_simps)

lemma le_val_le_bytes64 [simp]: "le_val (le_bytes64 v) = v mod 2 ^ 64"
proof -
  have "v mod 2 ^ 64 = v mod (2 ^ 32 * 2 ^ 32)"
    by simp
  also have "\<dots> = 2 ^ 32 * (v div 2 ^ 32 mod 2 ^ 32) + v mod 2 ^ 32"
    by (rule mod_mult2_eq)
  finally show ?thesis
    by (simp add: le_bytes64_def le_val_append)
qed

lemma le_val_replicate0 [simp]: "le_val (replicate n 0) = 0"
  by (induction n) auto

lemma readb_at: "m = A @ B @ C \<Longrightarrow> p = length A \<Longrightarrow> n = length B \<Longrightarrow> readb m p n = Inr B"
  by (simp add: readb_def)

lemma load32_at: "m = A @ le_bytes32 v @ C \<Longrightarrow> p = length A \<Longrightarrow> load32 m p = Inr (v mod 2 ^ 32)"
  by (simp add: load32_def readb_at [where A = A and B = "le_bytes32 v" and C = C])

lemma load32_zero_at: "m = A @ replicate n 0 @ C \<Longrightarrow> p = length A \<Longrightarrow> 4 \<le> n \<Longrightarrow> load32 m p = Inr 0"
proof -
  assume a: "m = A @ replicate n 0 @ C" "p = length A" "4 \<le> n"
  then have "m = A @ replicate 4 0 @ (replicate (n - 4) 0 @ C)"
    by (simp add: replicate_add [symmetric] del: replicate_add)
  then have "readb m p 4 = Inr (replicate 4 0)"
    using a by (intro readb_at [where A = A and C = "replicate (n - 4) 0 @ C"]) auto
  then show ?thesis
    by (simp add: load32_def)
qed

lemma NV_ALIGN4_ge: "x \<le> NV_ALIGN4 x"
  unfolding NV_ALIGN4_def by presburger

lemma NV_ALIGN4_dvd [simp]: "4 dvd NV_ALIGN4 x"
  by (simp add: NV_ALIGN4_def)

lemma NV_ALIGN4_add: "4 dvd a \<Longrightarrow> NV_ALIGN4 (a + x) = a + NV_ALIGN4 x"
  unfolding NV_ALIGN4_def by presburger

lemma NV_ALIGN4_le: "NV_ALIGN4 x \<le> x + 3"
  unfolding NV_ALIGN4_def by presburger

lemma NV_ALIGN_dvd [simp]: "4 dvd NV_ALIGN x"
proof -
  have "8 dvd NV_ALIGN x" by (simp add: NV_ALIGN_def)
  then show ?thesis by presburger
qed

lemma NV_ALIGN_bounds: "x \<le> NV_ALIGN x" "NV_ALIGN x \<le> x + 7"
  unfolding NV_ALIGN_def by presburger+

lemma length_image [simp]: "length (image p) = psize p"
  using NV_ALIGN4_ge [of "length (ap_name p)"] by (simp add: image_def psize_def)

lemma images_simps [simp]:
  "images [] = []" "images (p # ps) = image p @ images ps" "images (ps @ qs) = images ps @ images qs"
  by (simp_all add: images_def)

lemma psize_dvd: "wf_pair p \<Longrightarrow> 4 dvd psize p"
  by (simp add: wf_pair_def psize_def)

lemma length_images_dvd: "\<forall>p\<in>set ps. wf_pair p \<Longrightarrow> 4 dvd length (images ps)"
  by (induction ps) (auto simp: psize_dvd)

lemma image_enc:
  "wf_pair p \<Longrightarrow> load32 (pre @ image p @ rest) (length pre) = Inr (psize p)"
  by (rule load32_at [where A = pre and v = "psize p", THEN trans])
     (auto simp: image_def wf_pair_def)

lemma image_dec:
  "wf_pair p \<Longrightarrow> load32 (pre @ image p @ rest) (length pre + 4) = Inr (ap_dec p)"
  by (rule load32_at [where A = "pre @ le_bytes32 (psize p)" and v = "ap_dec p", THEN trans])
     (auto simp: image_def wf_pair_def)

lemma image_nsize:
  "wf_pair p \<Longrightarrow> load32 (pre @ image p @ rest) (length pre + 8) = Inr (length (ap_name p))"
proof -
  assume w: "wf_pair p"
  have "length (ap_name p) \<le> NV_ALIGN4 (length (ap_name p))" by (rule NV_ALIGN4_ge)
  with w have "length (ap_name p) < 2 ^ 32" by (simp add: wf_pair_def psize_def)
  then show ?thesis
    by (intro load32_at [where A = "pre @ le_bytes32 (psize p) @ le_bytes32 (ap_dec p)"
          and v = "length (ap_name p)", THEN trans])
       (auto simp: image_def)
qed

lemma image_type:
  "wf_pair p \<Longrightarrow>
   load32 (pre @ image p @ rest) (length pre + 12 + NV_ALIGN4 (length (ap_name p))) = Inr (ap_type p)"
  using NV_ALIGN4_ge [of "length (ap_name p)"]
  by (intro load32_at [where A = "pre @ le_bytes32 (psize p) @ le_bytes32 (ap_dec p)
          @ le_bytes32 (length (ap_name p)) @ ap_name p
          @ replicate (NV_ALIGN4 (length (ap_name p)) - length (ap_name p)) 0"
          and v = "ap_type p", THEN trans])
     (auto simp: image_def wf_pair_def)

lemma memcmp_at:
  "0 \<notin> set nm \<Longrightarrow> memcmp (A @ nm @ C) (length A) (cs @ [0]) (length nm) = Inr (prefix nm cs)"
proof (induction nm arbitrary: A cs)
  case Nil
  then show ?case by simp
next
  case (Cons x nm)
  from Cons.prems have x: "x \<noteq> 0" and nm: "0 \<notin> set nm" by auto
  have m: "A @ (x # nm) @ C = (A @ [x]) @ nm @ C" by simp
  have l: "length A + 1 = length (A @ [x])" by simp
  show ?case
  proof (cases cs)
    case Nil
    with x show ?thesis by (simp add: nth_append)
  next
    case (Cons c cs')
    have "memcmp (A @ (x # nm) @ C) (length A) (cs @ [0]) (length (x # nm))
          = (if x = c then memcmp (A @ (x # nm) @ C) (length A + 1) (cs' @ [0]) (length nm)
             else Inr False)"
      by (simp add: nth_append Cons)
    also have "\<dots> = (if x = c then Inr (prefix nm cs') else Inr False)"
      unfolding m l by (simp only: Cons.IH [OF nm])
    finally show ?thesis
      by (simp add: Cons)
  qed
qed

declare find_pair.simps [simp del] list_end.simps [simp del] size_loop.simps [simp del]
  pair_keys.simps [simp del]

lemma psize_pos: "0 < psize p"
  by (simp add: psize_def)

lemma pair_present_image:
  "wf_pair p \<Longrightarrow> pair_present (pre @ image p @ rest) (length pre) = Inr True"
  using psize_pos [of p] by (simp add: pair_present_def image_enc image_dec wf_pair_def)

lemma pair_present_term:
  "pair_present (pre @ replicate 8 0 @ rest) (length pre) = Inr False"
  by (simp add: pair_present_def load32_zero_at [where A = pre and n = 8 and C = rest])

lemma nvp_data_of_image:
  assumes w: "wf_pair p" and d: "4 dvd length pre"
  shows "nvp_data_of (pre @ image p @ rest) (length pre)
         = Inr (length pre + 12 + NV_ALIGN4 (length (ap_name p)))"
proof -
  have al: "NV_ALIGN4 (length pre + 8 + 4 + length (ap_name p))
            = length pre + 12 + NV_ALIGN4 (length (ap_name p))"
    using NV_ALIGN4_add [of "length pre + 12" "length (ap_name p)"] d by (simp add: add.assoc)
  show ?thesis
    by (simp only: nvp_data_of_def sizeof_nvp_header_def image_nsize [OF w] bindf_Inr al)
qed

lemma pair_matches_image:
  assumes w: "wf_pair p" and d: "4 dvd length pre"
  shows "pair_matches (pre @ image p @ rest) (length pre) name type = Inr (amatch name type p)"
proof -
  let ?N = "length (ap_name p)"
  let ?m = "pre @ image p @ rest"
  let ?A = "pre @ le_bytes32 (psize p) @ le_bytes32 (ap_dec p) @ le_bytes32 ?N"
  have m: "?m = ?A @ ap_name p
        @ (replicate (NV_ALIGN4 ?N - ?N) 0 @ le_bytes32 (ap_type p) @ le_bytes32 1
           @ ap_payload p @ rest)"
    by (simp add: image_def)
  have l: "length pre + 8 + 4 = length ?A"
    by simp
  have mc: "memcmp ?m (length pre + 8 + 4) (c_str name @ [0]) ?N = Inr (prefix (ap_name p) (c_str name))"
    unfolding m l using w by (intro memcmp_at) (simp add: wf_pair_def)
  have "pair_matches ?m (length pre) name type
        = (if prefix (ap_name p) (c_str name) then Inr (ap_type p = type) else Inr False)"
    by (simp only: pair_matches_def sizeof_nvp_header_def image_nsize [OF w]
          nvp_data_of_image [OF w d] bindf_Inr mc image_type [OF w])
  then show ?thesis
    by (simp add: amatch_def)
qed

lemma find_pair_images:
  "\<forall>p\<in>set ps. wf_pair p \<Longrightarrow> 4 dvd length pre \<Longrightarrow>
   find_pair (pre @ images ps @ replicate 8 0 @ rest) name type (length pre)
     = Inr (pos_of (amatch name type) ps (length pre))"
proof (induction ps arbitrary: pre)
  case Nil
  then show ?case
    by (subst find_pair.simps) (simp add: pair_present_term)
next
  case (Cons p ps)
  then have w: "wf_pair p" and ws: "\<forall>p\<in>set ps. wf_pair p" by auto
  let ?rest = "images ps @ replicate 8 0 @ rest"
  have m: "pre @ images (p # ps) @ replicate 8 0 @ rest = pre @ image p @ ?rest" by simp
  have m': "pre @ image p @ ?rest = (pre @ image p) @ ?rest" by simp
  have d': "4 dvd length (pre @ image p)"
    using Cons.prems(2) psize_dvd [OF w] by simp
  have ih: "find_pair ((pre @ image p) @ ?rest) name type (length pre + psize p)
        = Inr (pos_of (amatch name type) ps (length pre + psize p))"
    using Cons.IH [OF ws d'] by simp
  show ?case
    unfolding m
    by (subst find_pair.simps)
       (simp add: pair_present_image [OF w] pair_matches_image [OF w Cons.prems(2)]
          image_enc [OF w] ih [unfolded append_assoc])
qed

lemma list_end_images:
  "\<forall>p\<in>set ps. wf_pair p \<Longrightarrow>
   list_end (pre @ images ps @ replicate 8 0 @ rest) (length pre) = Inr (length pre + length (images ps))"
proof (induction ps arbitrary: pre)
  case Nil
  then show ?case
    by (subst list_end.simps) (simp add: pair_present_term)
next
  case (Cons p ps)
  then have w: "wf_pair p" and ws: "\<forall>p\<in>set ps. wf_pair p" by auto
  let ?rest = "images ps @ replicate 8 0 @ rest"
  have ih: "list_end ((pre @ image p) @ ?rest) (length pre + psize p)
        = Inr (length pre + psize p + length (images ps))"
    using Cons.IH [OF ws, of "pre @ image p"] by simp
  show ?case
    by (subst list_end.simps)
       (simp add: pair_present_image [OF w] image_enc [OF w] ih [unfolded append_assoc] add.assoc)
qed

lemma pos_of_Some:
  "pos_of P ps off = Some h \<Longrightarrow>
   \<exists>xs p ys. ps = xs @ p # ys \<and> P p \<and> h = off + length (images xs) \<and> remove_first P ps = xs @ ys"
proof (induction ps arbitrary: off)
  case Nil
  then show ?case by simp
next
  case (Cons q ps)
  show ?case
  proof (cases "P q")
    case True
    with Cons.prems show ?thesis
      by (intro exI [of _ "[]"] exI [of _ q] exI [of _ ps]) simp
  next
    case False
    with Cons.prems have "pos_of P ps (off + psize q) = Some h" by simp
    from Cons.IH [OF this] obtain xs p ys where
      "ps = xs @ p # ys" "P p" "h = off + psize q + length (images xs)" "remove_first P ps = xs @ ys"
      by auto
    with False show ?thesis
      by (intro exI [of _ "q # xs"] exI [of _ p] exI [of _ ys]) simp
  qed
qed

lemma pos_of_None: "pos_of P ps off = None \<Longrightarrow> remove_first P ps = ps"
  by (induction ps arbitrary: off) (auto split: if_splits)

lemma length_layout [simp]: "length (layout flag ps) = 16 + length (images ps)"
  by (simp add: layout_def)

lemma nvl_invD:
  assumes "nvl_inv flag nvl ps"
  obtains R where "nv_data nvl = Some (layout flag ps @ R)"
    and "nv_asize nvl = 16 + length (images ps) + length R"
    and "nv_size nvl = 16 + length (images ps)"
    and "\<forall>p\<in>set ps. wf_pair p" and "flag < 2 ^ 32"
proof -
  from assms obtain m where m: "nv_data nvl = Some m" "length m = nv_asize nvl"
    "nv_size nvl \<le> length m" "take (nv_size nvl) m = layout flag ps"
    and w: "\<forall>p\<in>set ps. wf_pair p" "flag < 2 ^ 32"
    by (auto simp: nvl_inv_def)
  from m(3,4) have sz: "nv_size nvl = 16 + length (images ps)"
    by (metis length_layout length_take min.absorb2)
  have "m = layout flag ps @ drop (nv_size nvl) m"
    using m(4) by (metis append_take_drop_id)
  then show ?thesis
    using that [of "drop (nv_size nvl) m"] m w sz
    by (metis length_append length_layout)
qed

lemma nvl_invI:
  "nv_data nvl = Some (layout flag ps @ R) \<Longrightarrow> nv_asize nvl = 16 + length (images ps) + length R \<Longrightarrow>
   nv_size nvl = 16 + length (images ps) \<Longrightarrow> \<forall>p\<in>set ps. wf_pair p \<Longrightarrow> flag < 2 ^ 32 \<Longrightarrow>
   nvl_inv flag nvl ps"
  by (simp add: nvl_inv_def)

lemma find_pair_layout:
  assumes "\<forall>p\<in>set ps. wf_pair p"
  shows "find_pair (layout flag ps @ R) name type 8 = Inr (pos_of (amatch name type) ps 8)"
  using find_pair_images [OF assms, of "le_bytes32 0 @ le_bytes32 flag" R name type]
  by (simp add: layout_def)

lemma remove_nvl_inv:
  assumes i: "nvl_inv flag nvl ps"
  shows "\<exists>rv nvl'. remove_nvl nvl name type = Inr (rv, nvl') \<and>
           nvl_inv flag nvl' (remove_first (amatch name type) ps) \<and>
           nv_asize nvl' = nv_asize nvl \<and>
           (rv = ENOENT \<longrightarrow> nvl' = nvl)"
proof -
  from i obtain R where d: "nv_data nvl = Some (layout flag ps @ R)"
    and a: "nv_asize nvl = 16 + length (images ps) + length R"
    and sz: "nv_size nvl = 16 + length (images ps)"
    and w: "\<forall>p\<in>set ps. wf_pair p" and f: "flag < 2 ^ 32"
    by (rule nvl_invD)
  define m where "m = layout flag ps @ R"
  have fp: "find_pair m name type 8 = Inr (pos_of (amatch name type) ps 8)"
    unfolding m_def by (rule find_pair_layout [OF w])
  show ?thesis
  proof (cases "pos_of (amatch name type) ps 8")
    case None
    then show ?thesis
      using i by (simp add: remove_nvl_def d m_def [symmetric] fp pos_of_None)
  next
    case (Some head)
    from pos_of_Some [OF this] obtain xs p ys where
      ps: "ps = xs @ p # ys" and h: "head = 8 + length (images xs)"
      and r: "remove_first (amatch name type) ps = xs @ ys"
      by auto
    from w ps have wp: "wf_pair p" and w': "\<forall>p\<in>set (xs @ ys). wf_pair p" by auto
    define A where "A = le_bytes32 0 @ le_bytes32 flag @ images xs"
    define T where "T = images ys @ replicate 8 0"
    define R' where "R' = drop (head + length T) m"
    define sz' where "sz' = 16 + length (images (xs @ ys))"
    have m: "m = A @ image p @ (T @ R)"
      by (simp add: m_def layout_def ps A_def T_def)
    have hA: "head = length A" by (simp add: h A_def)
    have enc: "load32 m head = Inr (psize p)"
      unfolding m hA by (rule image_enc [OF wp])
    have tl: "size_sub (nv_size nvl) (head + psize p) = length T"
      by (simp add: size_sub_def sz h ps T_def)
    have rd: "readb m (head + psize p) (length T) = Inr T"
      by (rule readb_at [where A = "A @ image p" and C = R]) (simp_all add: m hA)
    have l: "layout flag (xs @ ys) = A @ T"
      by (simp add: layout_def A_def T_def)
    have wr: "writeb m head T = Inr (layout flag (xs @ ys) @ R')"
    proof -
      have "head + length T \<le> length m"
        by (simp add: m hA)
      then have "writeb m head T = Inr (take head m @ T @ drop (head + length T) m)"
        by (simp add: writeb_def)
      moreover have "take head m = A"
        unfolding m hA by simp
      ultimately show ?thesis
        by (simp add: l R'_def)
    qed
    have s: "size_sub (nv_size nvl) (psize p) = sz'"
      by (simp add: size_sub_def sz ps sz'_def)
    have lR: "length R' = psize p + length R"
      by (simp add: R'_def m hA)
    let ?nvl' = "nvl\<lparr>nv_size := sz', nv_data := Some (layout flag (xs @ ys) @ R')\<rparr>"
    have res: "remove_nvl nvl name type = Inr (OK, ?nvl')"
      by (simp add: remove_nvl_def d m_def [symmetric] fp Some enc Let_def tl rd wr s)
    have "nvl_inv flag ?nvl' (xs @ ys)"
      using w' f a lR ps by (intro nvl_invI [where R = R']) (simp_all add: sz'_def)
    with res r show ?thesis
      by simp
  qed
qed

lemma writeb_zeros:
  assumes "p = length A + length W + g" and "g + length bs \<le> n"
  shows "writeb (A @ W @ replicate n 0 @ C) p bs
         = Inr (A @ (W @ replicate g 0 @ bs) @ replicate (n - g - length bs) 0 @ C)"
proof -
  have n: "n = g + (length bs + (n - g - length bs))"
    using assms(2) by simp
  have "A @ W @ replicate n 0 @ C
        = (A @ W @ replicate g 0) @ replicate (length bs) 0 @ (replicate (n - g - length bs) 0 @ C)"
    by (subst n) (simp only: replicate_add append_assoc)
  moreover have "p = length (A @ W @ replicate g 0)"
    using assms(1) by simp
  ultimately show ?thesis
    by (simp add: writeb_def)
qed

lemma writeb_zeros_nul:
  assumes "p = length A + length W + g" and "g + length bs + 1 \<le> n"
  shows "writeb (A @ W @ replicate n 0 @ C) p (bs @ [0])
         = Inr (A @ (W @ replicate g 0 @ bs) @ replicate (n - g - length bs) 0 @ C)"
proof -
  have "replicate (n - g - length bs) (0::byte) = 0 # replicate (n - g - length (bs @ [0])) 0"
    using assms(2) by (cases "n - g - length bs") auto
  then show ?thesis
    using writeb_zeros [of p A W g "bs @ [0]" n C] assms by simp
qed

lemma store32_zeros:
  assumes "p = length A + length W + g" and "g + 4 \<le> n"
  shows "store32 (A @ W @ replicate n 0 @ C) p v
         = Inr (A @ (W @ replicate g 0 @ le_bytes32 v) @ replicate (n - g - 4) 0 @ C)"
  using writeb_zeros [of p A W g "le_bytes32 v" n C] assms by (simp add: store32_def)

lemma write_pair_head_zeros:
  assumes enc: "encoded_size = 20 + NV_ALIGN4 (strlen name) + k"
    and small: "encoded_size + 8 < 2 ^ 32"
    and R: "encoded_size \<le> length R0"
    and idx: "idx = length B"
  shows "write_pair_head (B @ replicate 8 0 @ R0) idx name type encoded_size decoded_size
         = Inr (B @ (le_bytes32 encoded_size @ le_bytes32 decoded_size @ le_bytes32 (strlen name)
                @ c_str name @ replicate (NV_ALIGN4 (strlen name) - strlen name) 0
                @ le_bytes32 type @ le_bytes32 1)
                @ replicate (k + 8) 0 @ drop encoded_size R0)"
proof -
  define N where "N = strlen name"
  define g where "g = NV_ALIGN4 N - N"
  define E where "E = encoded_size"
  define R' where "R' = drop E R0"
  define W3 where "W3 = le_bytes32 E @ le_bytes32 decoded_size @ le_bytes32 N"
  have N: "length (c_str name) = N" by (simp add: N_def strlen_def)
  have ge: "N \<le> NV_ALIGN4 N" by (rule NV_ALIGN4_ge)
  have E: "E = 20 + NV_ALIGN4 N + k" by (simp add: E_def enc N_def)
  have md: "(E + 8) mod 2 ^ 32 = E + 8" using small by (simp add: E_def)
  have s1: "writeb (B @ replicate 8 0 @ R0) idx (replicate (E + 8) 0) = Inr (B @ [] @ replicate (E + 8) 0 @ R')"
    using R by (simp add: writeb_def idx R'_def E_def)
  have s2: "store32 (B @ [] @ replicate (E + 8) 0 @ R') idx E
            = Inr (B @ le_bytes32 E @ replicate (E + 4) 0 @ R')"
    using store32_zeros [of idx B "[]" 0 "E + 8" R' E] by (simp add: idx)
  have s3: "store32 (B @ le_bytes32 E @ replicate (E + 4) 0 @ R') (idx + 4) decoded_size
            = Inr (B @ (le_bytes32 E @ le_bytes32 decoded_size) @ replicate E 0 @ R')"
    using store32_zeros [of "idx + 4" B "le_bytes32 E" 0 "E + 4" R' decoded_size] by (simp add: idx)
  have s4: "store32 (B @ (le_bytes32 E @ le_bytes32 decoded_size) @ replicate E 0 @ R') (idx + 8) N
            = Inr (B @ W3 @ replicate (E - 4) 0 @ R')"
    using store32_zeros [of "idx + 8" B "le_bytes32 E @ le_bytes32 decoded_size" 0 E R' N] E
    by (simp add: idx W3_def)
  have s5: "writeb (B @ W3 @ replicate (E - 4) 0 @ R') (idx + 12) (c_str name @ [0])
            = Inr (B @ (W3 @ c_str name) @ replicate (E - 4 - N) 0 @ R')"
    using writeb_zeros_nul [of "idx + 12" B W3 0 "c_str name" "E - 4" R'] E ge
    by (simp add: idx W3_def N)
  have s6: "store32 (B @ (W3 @ c_str name) @ replicate (E - 4 - N) 0 @ R') (idx + 12 + NV_ALIGN4 N) type
            = Inr (B @ (W3 @ c_str name @ replicate g 0 @ le_bytes32 type)
                   @ replicate (E - 8 - NV_ALIGN4 N) 0 @ R')"
    using store32_zeros [of "idx + 12 + NV_ALIGN4 N" B "W3 @ c_str name" g "E - 4 - N" R' type] E ge
    by (simp add: idx W3_def N g_def)
  have s7: "store32 (B @ (W3 @ c_str name @ replicate g 0 @ le_bytes32 type)
                   @ replicate (E - 8 - NV_ALIGN4 N) 0 @ R') (idx + 12 + NV_ALIGN4 N + 4) 1
            = Inr (B @ (W3 @ c_str name @ replicate g 0 @ le_bytes32 type @ le_bytes32 1)
                   @ replicate (k + 8) 0 @ R')"
    using store32_zeros [of "idx + 12 + NV_ALIGN4 N + 4" B
            "W3 @ c_str name @ replicate g 0 @ le_bytes32 type" 0 "E - 8 - NV_ALIGN4 N" R' 1] E ge
    by (simp add: idx W3_def N g_def)
  show ?thesis
    unfolding write_pair_head_def E_def [symmetric] N_def [symmetric] md
    by (simp only: s1 s2 s3 s4 s5 s6 s7 bindf_Inr)
       (simp add: W3_def g_def R'_def)
qed

lemma layout_lhead: "layout flag ps = lhead flag ps @ replicate 8 0"
  by (simp add: layout_def lhead_def)

lemma length_lhead [simp]: "length (lhead flag ps) = 8 + length (images ps)"
  by (simp add: lhead_def)

lemma length_pair_head [simp]:
  "length (pair_head name type e d) = 20 + NV_ALIGN4 (strlen name)"
  using NV_ALIGN4_ge [of "strlen name"] by (simp add: pair_head_def strlen_def)

lemma add_pair_head_inv:
  assumes i: "nvl_inv flag nvl ps"
    and enc: "encoded_size = 20 + NV_ALIGN4 (strlen name) + k"
    and small: "encoded_size + 8 < 2 ^ 32"
  shows "(a = ALLOC_FAIL \<and> add_pair_head a nvl name type encoded_size decoded_size = Inr (ENOMEM, nvl)) \<or>
         (\<exists>R'. add_pair_head a nvl name type encoded_size decoded_size
            = Inr (OK, nvl\<lparr>nv_asize := 16 + length (images ps) + encoded_size + length R',
                     nv_data := Some (lhead flag ps @ pair_head name type encoded_size decoded_size
                                      @ replicate (k + 8) 0 @ R'),
                     nv_idx := Some (length (lhead flag ps) + 20 + NV_ALIGN4 (strlen name))\<rparr>))"
proof -
  from i obtain R where d: "nv_data nvl = Some (layout flag ps @ R)"
    and a: "nv_asize nvl = 16 + length (images ps) + length R"
    and sz: "nv_size nvl = 16 + length (images ps)"
    by (rule nvl_invD)
  define B where "B = lhead flag ps"
  define E where "E = encoded_size"
  define m where "m = layout flag ps @ R"
  define I where "I = length B + 20 + NV_ALIGN4 (strlen name)"
  have md: "(E + 8) mod 2 ^ 32 = E + 8" using small by (simp add: E_def)
  have free: "size_sub (nv_asize nvl) (nv_size nvl) = length R"
    by (simp add: size_sub_def a sz)
  have idx: "nv_size nvl - sizeof_nvp_header = length B"
    by (simp add: sz sizeof_nvp_header_def B_def)
  have nlt: "\<not> nv_size nvl < sizeof_nvp_header"
    by (simp add: sz sizeof_nvp_header_def)
  have I: "length B + 12 + NV_ALIGN4 (strlen name) + 4 + 4 = I"
    by (simp add: I_def)
  have un: "add_pair_head a nvl name type E decoded_size =
     (case (if length R < E + 8
            then map_option (\<lambda>ptr. (ptr, nv_asize nvl + E)) (realloc a m (nv_asize nvl + E))
            else Some (m, nv_asize nvl)) of
        None \<Rightarrow> Inr (ENOMEM, nvl)
      | Some (m0, asize) \<Rightarrow>
          bindf (write_pair_head m0 (length B) name type E decoded_size) (\<lambda>m7.
            Inr (OK, nvl\<lparr>nv_asize := asize, nv_data := Some m7, nv_idx := Some I\<rparr>)))"
    by (simp only: add_pair_head_def d m_def [symmetric] option.case free md idx nlt if_False Let_def I)
  have wr: "E \<le> length R0 \<Longrightarrow>
      write_pair_head (B @ replicate 8 0 @ R0) (length B) name type E decoded_size
        = Inr (B @ pair_head name type E decoded_size @ replicate (k + 8) 0 @ drop E R0)" for R0
    using write_pair_head_zeros [of E name k R0 "length B" B type decoded_size] enc small
    by (simp add: E_def pair_head_def)
  have m: "m = B @ replicate 8 0 @ R"
    by (simp add: m_def layout_lhead B_def)
  show ?thesis
    unfolding E_def [symmetric] B_def [symmetric] I_def [symmetric]
  proof (cases "length R < E + 8")
    case False
    then have le: "E \<le> length R" by simp
    then have as: "16 + length (images ps) + E + length (drop E R) = nv_asize nvl"
      by (simp add: a)
    show "(a = ALLOC_FAIL \<and> add_pair_head a nvl name type E decoded_size = Inr (ENOMEM, nvl)) \<or>
         (\<exists>R'. add_pair_head a nvl name type E decoded_size
            = Inr (OK, nvl\<lparr>nv_asize := 16 + length (images ps) + E + length R',
                     nv_data := Some (B @ pair_head name type E decoded_size @ replicate (k + 8) 0 @ R'),
                     nv_idx := Some I\<rparr>))"
      by (intro disjI2 exI [of _ "drop E R"])
         (simp only: un False if_False option.case prod.case wr [OF le, folded m] bindf_Inr as)
  next
    case True
    show "(a = ALLOC_FAIL \<and> add_pair_head a nvl name type E decoded_size = Inr (ENOMEM, nvl)) \<or>
         (\<exists>R'. add_pair_head a nvl name type E decoded_size
            = Inr (OK, nvl\<lparr>nv_asize := 16 + length (images ps) + E + length R',
                     nv_data := Some (B @ pair_head name type E decoded_size @ replicate (k + 8) 0 @ R'),
                     nv_idx := Some I\<rparr>))"
    proof (cases a)
      case ALLOC_FAIL
      have "add_pair_head a nvl name type E decoded_size = Inr (ENOMEM, nvl)"
        unfolding un by (simp add: True realloc_def ALLOC_FAIL)
      with ALLOC_FAIL show ?thesis
        by simp
    next
      case (ALLOC_OK junk)
      define J where "J = map junk [0..<E]"
      have lm: "length m = nv_asize nvl"
        by (simp add: m a B_def)
      have re: "realloc a m (nv_asize nvl + E) = Some (B @ replicate 8 0 @ (R @ J))"
        by (simp add: realloc_def ALLOC_OK lm J_def) (simp add: m)
      have le: "E \<le> length (R @ J)" by (simp add: J_def)
      have as: "16 + length (images ps) + E + length (drop E (R @ J)) = nv_asize nvl + E"
        by (simp add: a J_def)
      show ?thesis
        by (intro disjI2 exI [of _ "drop E (R @ J)"])
           (simp only: un True if_True re option.map option.case prod.case wr [OF le] bindf_Inr as)
    qed
  qed
qed

lemma c_str_no_nul [simp]: "0 \<notin> set (c_str s)"
  unfolding c_str_def by (induction s) auto

lemma layout_snoc: "layout flag (ps @ [p]) = lhead flag ps @ image p @ replicate 8 0"
  by (simp add: layout_def lhead_def)

lemma NV_ALIGN_9 [simp]: "NV_ALIGN 9 = 16"
  by (simp add: NV_ALIGN_def)

lemma psize_new_uint64: "psize (new_uint64 name v) = 40 + NV_ALIGN4 (strlen name)"
  by (simp add: psize_def new_uint64_def strlen_def)

lemma psize_new_string:
  "psize (new_string name s) = 24 + NV_ALIGN4 (strlen name) + NV_ALIGN (strlen s + 1)"
  using NV_ALIGN_bounds(1) [of "strlen s + 1"]
  by (simp add: psize_def new_string_def strlen_def)

lemma wf_new_uint64: "strlen name < 2 ^ 30 \<Longrightarrow> wf_pair (new_uint64 name v)"
  using NV_ALIGN4_le [of "strlen name"] NV_ALIGN_bounds [of "4 * 4 + strlen name + 1"]
  by (simp add: wf_pair_def psize_new_uint64) (simp add: new_uint64_def DATA_TYPE_UINT64_def)

lemma wf_new_string:
  "strlen name < 2 ^ 30 \<Longrightarrow> strlen s < 2 ^ 30 \<Longrightarrow> wf_pair (new_string name s)"
  using NV_ALIGN4_le [of "strlen name"] NV_ALIGN_bounds [of "4 * 4 + strlen name + 1"]
    NV_ALIGN_bounds [of "strlen s + 1"] NV_ALIGN_dvd [of "strlen s + 1"]
  by (simp add: wf_pair_def psize_new_string)
     (simp add: new_string_def DATA_TYPE_STRING_def strlen_def)

lemma image_new_uint64:
  "image (new_uint64 name v)
   = pair_head name DATA_TYPE_UINT64 (40 + NV_ALIGN4 (strlen name))
       (NV_ALIGN (4 * 4 + strlen name + 1) + 8) @ le_bytes64 v @ replicate 12 0"
  by (simp add: image_def psize_new_uint64 pair_head_def) (simp add: new_uint64_def strlen_def)

lemma image_new_string:
  "image (new_string name s)
   = pair_head name DATA_TYPE_STRING (24 + NV_ALIGN4 (strlen name) + NV_ALIGN (strlen s + 1))
       (NV_ALIGN (4 * 4 + strlen name + 1) + NV_ALIGN (strlen s + 1))
     @ le_bytes32 (strlen s) @ c_str s @ replicate (NV_ALIGN (strlen s + 1) - strlen s) 0"
  by (simp add: image_def psize_new_string pair_head_def) (simp add: new_string_def strlen_def)

lemma load32_flag:
  assumes "flag < 2 ^ 32"
  shows "load32 (layout flag ps @ R) 4 = Inr flag"
  using load32_at [of "layout flag ps @ R" "le_bytes32 0" flag "images ps @ replicate 8 0 @ R" 4] assms
  by (simp add: layout_def)

lemma add_unique_inv:
  assumes i: "nvl_inv flag nvl ps"
  shows "\<exists>nvl1. add_unique nvl name type = Inr nvl1 \<and> nvl_inv flag nvl1 (unique_ps flag name type ps)"
proof -
  from i obtain R where d: "nv_data nvl = Some (layout flag ps @ R)" and f: "flag < 2 ^ 32"
    by (rule nvl_invD)
  show ?thesis
  proof (cases "flag mod 2 \<noteq> 0")
    case False
    with i show ?thesis
      by (simp add: add_unique_def d load32_flag [OF f] unique_ps_def)
  next
    case True
    from remove_nvl_inv [OF i, of name type] obtain rv nvl' where
      r: "remove_nvl nvl name type = Inr (rv, nvl')"
      and i': "nvl_inv flag nvl' (remove_first (amatch name type) ps)"
      by auto
    with True show ?thesis
      by (simp add: add_unique_def d load32_flag [OF f] unique_ps_def)
  qed
qed

lemma nvlist_add_uint64_inv:
  assumes i: "nvl_inv flag nvl ps" and b: "strlen name < 2 ^ 30"
  shows "\<exists>rv nvl'. nvlist_add_uint64 a nvl name v = Inr (rv, nvl') \<and>
           ((rv = ENOMEM \<and> a = ALLOC_FAIL \<and> nvl_inv flag nvl' (unique_ps flag name DATA_TYPE_UINT64 ps)) \<or>
            (rv = OK \<and> nvl_inv flag nvl'
               (unique_ps flag name DATA_TYPE_UINT64 ps @ [new_uint64 name v])))"
proof -
  define ps1 where "ps1 = unique_ps flag name DATA_TYPE_UINT64 ps"
  define E where "E = 40 + NV_ALIGN4 (strlen name)"
  define D where "D = NV_ALIGN (4 * 4 + strlen name + 1) + 8"
  define new where "new = new_uint64 name v"
  from add_unique_inv [OF i, of name DATA_TYPE_UINT64] obtain nvl1 where
    u: "add_unique nvl name DATA_TYPE_UINT64 = Inr nvl1" and i1: "nvl_inv flag nvl1 ps1"
    by (auto simp: ps1_def)
  from i1 obtain R where sz: "nv_size nvl1 = 16 + length (images ps1)"
    and w: "\<forall>p\<in>set ps1. wf_pair p" and f: "flag < 2 ^ 32"
    by (rule nvl_invD)
  have small: "E + 8 < 2 ^ 32"
    using NV_ALIGN4_le [of "strlen name"] b by (simp add: E_def)
  have Dsmall: "D < 2 ^ 32"
    using NV_ALIGN_bounds [of "4 * 4 + strlen name + 1"] b by (simp add: D_def)
  have encE: "(4 + 4 + 4 + NV_ALIGN4 (strlen name) + 4 + 4 + 4 + NV_ALIGN (8 + 1)) mod 2 ^ 32 = E"
    using small by (simp add: E_def)
  have decD: "(NV_ALIGN (4 * 4 + strlen name + 1) + 8) mod 2 ^ 32 = D"
    using Dsmall by (simp add: D_def)
  have un: "nvlist_add_uint64 a nvl name v =
      bindf (add_pair_head a nvl1 name DATA_TYPE_UINT64 E D) (\<lambda>(rv, nvl2).
            if rv \<noteq> OK then Inr (rv, nvl2)
            else case (nv_data nvl2, nv_idx nvl2) of
                   (Some m, Some idx) \<Rightarrow>
                     bindf (store64 m idx v) (\<lambda>m'.
                       Inr (OK, nvl2\<lparr>nv_size := nv_size nvl2 + E, nv_data := Some m'\<rparr>))
                 | _ \<Rightarrow> Inl BadAccess)"
    by (simp only: nvlist_add_uint64_def u bindf_Inr Let_def encE decD)
  have wn: "wf_pair new"
    unfolding new_def by (rule wf_new_uint64 [OF b])
  from add_pair_head_inv [OF i1, of E name 20 a DATA_TYPE_UINT64 D] small
  consider (fail) "a = ALLOC_FAIL" "add_pair_head a nvl1 name DATA_TYPE_UINT64 E D = Inr (ENOMEM, nvl1)"
    | (ok) R' where "add_pair_head a nvl1 name DATA_TYPE_UINT64 E D
            = Inr (OK, nvl1\<lparr>nv_asize := 16 + length (images ps1) + E + length R',
                     nv_data := Some (lhead flag ps1 @ pair_head name DATA_TYPE_UINT64 E D
                                      @ replicate 28 0 @ R'),
                     nv_idx := Some (length (lhead flag ps1) + 20 + NV_ALIGN4 (strlen name))\<rparr>)"
    by (auto simp: E_def)
  then show ?thesis
  proof cases
    case fail
    with i1 show ?thesis
      unfolding un ps1_def [symmetric] by simp
  next
    case ok
    define W where "W = pair_head name DATA_TYPE_UINT64 E D"
    define B where "B = lhead flag ps1"
    have st: "store64 (B @ W @ replicate 28 0 @ R') (length B + 20 + NV_ALIGN4 (strlen name)) v
          = Inr (B @ (W @ le_bytes64 v) @ replicate 20 0 @ R')"
      using writeb_zeros [of "length B + 20 + NV_ALIGN4 (strlen name)" B W 0 "le_bytes64 v" 28 R']
      by (simp add: store64_def W_def)
    have lay: "B @ W @ le_bytes64 v @ replicate 20 0 @ R' = layout flag (ps1 @ [new]) @ R'"
      by (simp add: layout_snoc B_def W_def new_def image_new_uint64 E_def D_def
            replicate_add [symmetric] del: replicate_add)
    let ?nvl' = "nvl1\<lparr>nv_asize := 16 + length (images ps1) + E + length R',
                     nv_data := Some (layout flag (ps1 @ [new]) @ R'),
                     nv_idx := Some (length B + 20 + NV_ALIGN4 (strlen name)),
                     nv_size := nv_size nvl1 + E\<rparr>"
    have res: "nvlist_add_uint64 a nvl name v = Inr (OK, ?nvl')"
      unfolding un ok B_def [symmetric] W_def [symmetric]
      by (simp add: st lay)
    have "nvl_inv flag ?nvl' (ps1 @ [new])"
      using w wn f sz
      by (intro nvl_invI [where R = R']) (simp_all add: new_def psize_new_uint64 E_def)
    with res show ?thesis
      unfolding ps1_def [symmetric] new_def [symmetric] by simp
  qed
qed

lemma nvlist_add_string_inv:
  assumes i: "nvl_inv flag nvl ps" and b: "strlen name < 2 ^ 30" and bv: "strlen s < 2 ^ 30"
  shows "\<exists>rv nvl'. nvlist_add_string a nvl name s = Inr (rv, nvl') \<and>
           ((rv = ENOMEM \<and> a = ALLOC_FAIL \<and> nvl_inv flag nvl' (unique_ps flag name DATA_TYPE_STRING ps)) \<or>
            (rv = OK \<and> nvl_inv flag nvl'
               (unique_ps flag name DATA_TYPE_STRING ps @ [new_string name s])))"
proof -
  define ps1 where "ps1 = unique_ps flag name DATA_TYPE_STRING ps"
  define L where "L = strlen s"
  define V where "V = NV_ALIGN (L + 1)"
  define E where "E = 24 + NV_ALIGN4 (strlen name) + V"
  define D where "D = NV_ALIGN (4 * 4 + strlen name + 1) + V"
  define new where "new = new_string name s"
  from add_unique_inv [OF i, of name DATA_TYPE_STRING] obtain nvl1 where
    u: "add_unique nvl name DATA_TYPE_STRING = Inr nvl1" and i1: "nvl_inv flag nvl1 ps1"
    by (auto simp: ps1_def)
  from i1 obtain R where sz: "nv_size nvl1 = 16 + length (images ps1)"
    and w: "\<forall>p\<in>set ps1. wf_pair p" and f: "flag < 2 ^ 32"
    by (rule nvl_invD)
  have V: "L + 1 \<le> V" "V \<le> L + 8"
    using NV_ALIGN_bounds [of "L + 1"] by (simp_all add: V_def)
  have small: "E + 8 < 2 ^ 32"
    using NV_ALIGN4_le [of "strlen name"] b bv V by (simp add: E_def L_def)
  have Dsmall: "D < 2 ^ 32"
    using NV_ALIGN_bounds [of "4 * 4 + strlen name + 1"] b bv V by (simp add: D_def L_def)
  have encE: "(4 + 4 + 4 + NV_ALIGN4 (strlen name) + 4 + 4 + 4 + V) mod 2 ^ 32 = E"
    using small by (simp add: E_def)
  have decD: "(NV_ALIGN (4 * 4 + strlen name + 1) + V) mod 2 ^ 32 = D"
    using Dsmall by (simp add: D_def)
  have un: "nvlist_add_string a nvl name s =
      bindf (add_pair_head a nvl1 name DATA_TYPE_STRING E D) (\<lambda>(rv, nvl2).
            if rv \<noteq> OK then Inr (rv, nvl2)
            else case (nv_data nvl2, nv_idx nvl2) of
                   (Some m, Some idx) \<Rightarrow>
                     bindf (store32 m idx L) (\<lambda>m1.
                     bindf (writeb m1 (idx + 4) (c_str s @ [0])) (\<lambda>m2.
                       Inr (OK, nvl2\<lparr>nv_size := nv_size nvl2 + E,
                                     nv_data := Some m2,
                                     nv_idx := Some (idx + 4 + NV_ALIGN4 L)\<rparr>)))
                 | _ \<Rightarrow> Inl BadAccess)"
    by (simp only: nvlist_add_string_def u bindf_Inr Let_def L_def [symmetric] V_def [symmetric]
          encE decD)
  have wn: "wf_pair new"
    unfolding new_def by (rule wf_new_string [OF b bv])
  have E': "E = 20 + NV_ALIGN4 (strlen name) + (4 + V)"
    by (simp add: E_def)
  from add_pair_head_inv [OF i1 E', of a DATA_TYPE_STRING D] small
  consider (fail) "a = ALLOC_FAIL" "add_pair_head a nvl1 name DATA_TYPE_STRING E D = Inr (ENOMEM, nvl1)"
    | (ok) R' where "add_pair_head a nvl1 name DATA_TYPE_STRING E D
            = Inr (OK, nvl1\<lparr>nv_asize := 16 + length (images ps1) + E + length R',
                     nv_data := Some (lhead flag ps1 @ pair_head name DATA_TYPE_STRING E D
                                      @ replicate (V + 12) 0 @ R'),
                     nv_idx := Some (length (lhead flag ps1) + 20 + NV_ALIGN4 (strlen name))\<rparr>)"
    by (auto simp: add.commute add.left_commute)
  then show ?thesis
  proof cases
    case fail
    with i1 show ?thesis
      unfolding un ps1_def [symmetric] by simp
  next
    case ok
    define W where "W = pair_head name DATA_TYPE_STRING E D"
    define B where "B = lhead flag ps1"
    define I where "I = length B + 20 + NV_ALIGN4 (strlen name)"
    have lc: "length (c_str s) = L"
      by (simp add: L_def strlen_def)
    have st1: "store32 (B @ W @ replicate (V + 12) 0 @ R') I L
          = Inr (B @ W @ le_bytes32 L @ replicate (V + 8) 0 @ R')"
      using store32_zeros [of I B W 0 "V + 12" R' L]
      by (simp add: W_def I_def)
    have st2: "writeb (B @ W @ le_bytes32 L @ replicate (V + 8) 0 @ R') (I + 4) (c_str s @ [0])
          = Inr (B @ W @ le_bytes32 L @ c_str s @ replicate (V + 8 - L) 0 @ R')"
      using writeb_zeros_nul [of "I + 4" B "W @ le_bytes32 L" 0 "c_str s" "V + 8" R'] V
      by (simp add: W_def I_def lc)
    have rp: "replicate (V + 8 - L) (0::byte) = replicate (V - L) 0 @ replicate 8 0"
      using V by (simp add: replicate_add [symmetric] del: replicate_add)
    have lay: "B @ W @ le_bytes32 L @ c_str s @ replicate (V + 8 - L) 0 @ R'
               = layout flag (ps1 @ [new]) @ R'"
      unfolding rp
      by (simp add: layout_snoc B_def W_def new_def image_new_string E_def D_def L_def V_def)
    let ?nvl' = "nvl1\<lparr>nv_asize := 16 + length (images ps1) + E + length R',
                     nv_size := nv_size nvl1 + E,
                     nv_data := Some (layout flag (ps1 @ [new]) @ R'),
                     nv_idx := Some (I + 4 + NV_ALIGN4 L)\<rparr>"
    have res: "nvlist_add_string a nvl name s = Inr (OK, ?nvl')"
      unfolding un ok B_def [symmetric] W_def [symmetric] I_def [symmetric]
      by (simp add: st1 st2 lay)
    have "nvl_inv flag ?nvl' (ps1 @ [new])"
      using w wn f sz
      by (intro nvl_invI [where R = R'])
         (simp_all add: new_def psize_new_string E_def V_def L_def)
    with res show ?thesis
      unfolding ps1_def [symmetric] new_def [symmetric] by simp
  qed
qed

subsection \<open>Sequences of calls\<close>

lemma nvlist_create_inv:
  assumes "nvlist_create True True flag = Some nvl"
  shows "nvl_inv (nat (flag mod 2 ^ 32)) nvl []"
proof -
  have "nat (flag mod 2 ^ 32) < 2 ^ 32"
    by (simp add: nat_less_iff)
  with assms show ?thesis
    by (intro nvl_invI [where R = "[]"])
       (auto simp: nvlist_create_def layout_def NV_VERSION_def sizeof_nvs_data_def)
qed

lemma call_inv:
  assumes i: "nvl_inv flag nvl ps" and f: "call_fits c"
  shows "\<exists>nvl' ps'. call nvl c = Inr nvl' \<and> nvl_inv flag nvl' ps' \<and> astep flag c ps ps'"
proof (cases c)
  case (ADD_UINT64 a name v)
  with f have "strlen name < 2 ^ 30" by simp
  from nvlist_add_uint64_inv [OF i this, of a v] show ?thesis
    by (auto simp: ADD_UINT64)
next
  case (ADD_STRING a name s)
  with f have "strlen name < 2 ^ 30" "strlen s < 2 ^ 30" by simp_all
  from nvlist_add_string_inv [OF i this, of a] show ?thesis
    by (auto simp: ADD_STRING)
next
  case (REMOVE name type)
  from remove_nvl_inv [OF i, of name type] show ?thesis
    by (auto simp: REMOVE)
qed

lemma calls_inv:
  assumes "nvl_inv flag nvl ps" and "\<forall>c\<in>set cs. call_fits c" and "Q ps"
    and "\<And>c ps ps'. c \<in> set cs \<Longrightarrow> Q ps \<Longrightarrow> \<forall>p\<in>set ps. wf_pair p \<Longrightarrow> astep flag c ps ps' \<Longrightarrow> Q ps'"
  shows "\<exists>nvl' ps'. calls nvl cs = Inr nvl' \<and> nvl_inv flag nvl' ps' \<and> Q ps'"
  using assms
proof (induction cs arbitrary: nvl ps)
  case Nil
  then show ?case by auto
next
  case (Cons c cs)
  from Cons.prems(2) have fc: "call_fits c" and fcs: "\<forall>c\<in>set cs. call_fits c" by auto
  from call_inv [OF Cons.prems(1) fc] obtain nvl1 ps1 where
    c: "call nvl c = Inr nvl1" and i1: "nvl_inv flag nvl1 ps1" and a: "astep flag c ps ps1"
    by auto
  from Cons.prems(1) have w: "\<forall>p\<in>set ps. wf_pair p"
    by (simp add: nvl_inv_def)
  have q1: "Q ps1"
    by (rule Cons.prems(4) [OF _ Cons.prems(3) w a]) simp
  have "\<exists>nvl' ps'. calls nvl1 cs = Inr nvl' \<and> nvl_inv flag nvl' ps' \<and> Q ps'"
    by (rule Cons.IH [OF i1 fcs q1]) (rule Cons.prems(4), auto)
  with c show ?case
    by simp
qed

lemma calls_create_inv:
  assumes "nvlist_create True True flag = Some nvl0" and "\<forall>c\<in>set cs. call_fits c"
  shows "\<exists>nvl ps. calls nvl0 cs = Inr nvl \<and> nvl_inv (nat (flag mod 2 ^ 32)) nvl ps"
  using calls_inv [OF nvlist_create_inv [OF assms(1)] assms(2), of "\<lambda>_. True"] by auto

lemma inv_terminator:
  assumes "nvl_inv flag nvl ps"
  shows "\<exists>m. nv_data nvl = Some m \<and> 8 \<le> nv_size nvl \<and> nv_size nvl \<le> length m \<and>
             take 8 (drop (nv_size nvl - 8) m) = replicate 8 0"
proof -
  from assms obtain R where d: "nv_data nvl = Some (layout flag ps @ R)"
    and sz: "nv_size nvl = 16 + length (images ps)"
    by (rule nvl_invD)
  have "layout flag ps @ R = lhead flag ps @ replicate 8 0 @ R"
    by (simp add: layout_lhead)
  then show ?thesis
    by (simp add: d sz)
qed

subsection \<open>The chain of the headers\<close>

lemma offsets_nonempty [simp]: "offsets off ps \<noteq> []"
  by (cases ps) auto

lemma hd_offsets [simp]: "hd (offsets off ps) = off"
  by (cases ps) auto

lemma last_offsets [simp]: "last (offsets off ps) = off + length (images ps)"
  by (induction ps arbitrary: off) (auto simp: add.assoc)

lemma length_offsets [simp]: "length (offsets off ps) = Suc (length ps)"
  by (induction ps arbitrary: off) auto

lemma pair_chain_single: "pair_present m h = Inr False \<Longrightarrow> pair_chain m [h]"
  by (simp add: pair_chain_def)

lemma pair_chain_Cons:
  assumes c: "pair_chain m hs" and p: "pair_present m h = Inr True"
    and l: "load32 m h = Inr (hd hs - h)" and lt: "h < hd hs"
  shows "pair_chain m (h # hs)"
proof -
  from c have ne: "hs \<noteq> []" by (simp add: pair_chain_def)
  then have h0: "hs ! 0 = hd hs" by (simp add: hd_conv_nth)
  have "pair_present m ((h # hs) ! i) = Inr True \<and>
        load32 m ((h # hs) ! i) = Inr ((h # hs) ! Suc i - (h # hs) ! i) \<and>
        (h # hs) ! i < (h # hs) ! Suc i" if "Suc i < length (h # hs)" for i
  proof (cases i)
    case 0
    with p l lt h0 show ?thesis by simp
  next
    case (Suc j)
    with that c show ?thesis by (simp add: pair_chain_def)
  qed
  with c ne show ?thesis
    by (simp add: pair_chain_def)
qed

lemma pair_chain_tl:
  assumes "pair_chain m (h # h' # hs)"
  shows "pair_chain m (h' # hs)" and "pair_present m h = Inr True"
    and "load32 m h = Inr (h' - h)" and "h < h'"
proof -
  from assms have a: "\<And>i. Suc i < Suc (Suc (length hs)) \<Longrightarrow>
        pair_present m ((h # h' # hs) ! i) = Inr True \<and>
        load32 m ((h # h' # hs) ! i) = Inr ((h # h' # hs) ! Suc i - (h # h' # hs) ! i) \<and>
        (h # h' # hs) ! i < (h # h' # hs) ! Suc i"
    and b: "pair_present m (last (h' # hs)) = Inr False"
    by (simp_all add: pair_chain_def)
  from a [of 0] show "pair_present m h = Inr True" "load32 m h = Inr (h' - h)" "h < h'"
    by simp_all
  have "pair_present m ((h' # hs) ! i) = Inr True \<and>
        load32 m ((h' # hs) ! i) = Inr ((h' # hs) ! Suc i - (h' # hs) ! i) \<and>
        (h' # hs) ! i < (h' # hs) ! Suc i" if "Suc i < length (h' # hs)" for i
    using a [of "Suc i"] that by simp
  with b show "pair_chain m (h' # hs)"
    unfolding pair_chain_def by blast
qed

lemma chain_images:
  "\<forall>p\<in>set ps. wf_pair p \<Longrightarrow>
   pair_chain (pre @ images ps @ replicate 8 0 @ rest) (offsets (length pre) ps)"
proof (induction ps arbitrary: pre)
  case Nil
  then show ?case
    by (simp add: pair_chain_single pair_present_term)
next
  case (Cons p ps)
  then have w: "wf_pair p" and ws: "\<forall>p\<in>set ps. wf_pair p" by auto
  let ?rest = "images ps @ replicate 8 0 @ rest"
  have ih: "pair_chain (pre @ image p @ ?rest) (offsets (length pre + psize p) ps)"
    using Cons.IH [OF ws, of "pre @ image p"] by simp
  have "pair_chain (pre @ image p @ ?rest) (length pre # offsets (length pre + psize p) ps)"
    using psize_pos [of p]
    by (intro pair_chain_Cons ih pair_present_image [OF w]) (simp_all add: image_enc [OF w])
  then show ?case
    by simp
qed

lemma inv_chain:
  assumes "nvl_inv flag nvl ps"
  shows "\<exists>m hs. nv_data nvl = Some m \<and> nv_size nvl \<le> length m \<and> pair_chain m hs \<and>
           hd hs = 8 \<and> last hs + 8 = nv_size nvl \<and> length hs = Suc (length ps)"
proof -
  from assms obtain R where d: "nv_data nvl = Some (layout flag ps @ R)"
    and sz: "nv_size nvl = 16 + length (images ps)"
    and w: "\<forall>p\<in>set ps. wf_pair p"
    by (rule nvl_invD)
  have "pair_chain (layout flag ps @ R) (offsets 8 ps)"
    using chain_images [OF w, of "le_bytes32 0 @ le_bytes32 flag" R] by (simp add: layout_def)
  then show ?thesis
    by (intro exI [of _ "layout flag ps @ R"] exI [of _ "offsets 8 ps"]) (simp add: d sz)
qed

lemma list_end_chain: "pair_chain m hs \<Longrightarrow> list_end m (hd hs) = Inr (last hs)"
proof (induction hs rule: induct_list012)
  case 1
  then show ?case by (simp add: pair_chain_def)
next
  case (2 h)
  then have "pair_present m h = Inr False" by (simp add: pair_chain_def)
  then show ?case by (subst list_end.simps) simp
next
  case (3 h h' hs)
  note t = pair_chain_tl [OF "3.prems"]
  from "3.IH"(2) [OF t(1)] have "list_end m h' = Inr (last (h' # hs))" by simp
  with t(2,3,4) show ?case
    by (subst list_end.simps) simp
qed

lemma chain_of_list_end:
  "list_end m p = Inr t \<Longrightarrow> \<exists>hs. pair_chain m hs \<and> hd hs = p \<and> last hs = t"
proof (induction m p rule: list_end.induct)
  case (1 m nvp)
  from "1.prems" obtain b where b: "pair_present m nvp = Inr b"
    by (subst (asm) list_end.simps) (auto split: sum.splits)
  show ?case
  proof (cases b)
    case False
    with b "1.prems" have "t = nvp"
      by (subst (asm) list_end.simps) simp
    with b False show ?thesis
      by (intro exI [of _ "[nvp]"]) (simp add: pair_chain_single)
  next
    case True
    with b "1.prems" obtain e where e: "load32 m nvp = Inr e" and r: "list_end m (nvp + e) = Inr t"
      by (subst (asm) list_end.simps) (auto split: sum.splits)
    from b True e have pos: "0 < e"
      by (auto simp: pair_present_def split: if_splits)
    from True have bT: "b = True" by simp
    from "1.IH" [OF b bT e r] obtain hs where
      hs: "pair_chain m hs" "hd hs = nvp + e" "last hs = t"
      by auto
    have "pair_chain m (nvp # hs)"
      using b True e pos hs by (intro pair_chain_Cons) simp_all
    with hs show ?thesis
      by (intro exI [of _ "nvp # hs"]) (auto simp: pair_chain_def)
  qed
qed

subsection \<open>Truncated streams and failed allocations\<close>

lemma drop_take_take: "q + n \<le> k \<Longrightarrow> take n (drop q (take k m)) = take n (drop q m)"
  by (simp add: drop_take min_def)

lemma readb_take: "q + n \<le> k \<Longrightarrow> readb (take k m) q n = readb m q n"
  by (auto simp: readb_def drop_take_take)

lemma readb_take_fail: "k < q + n \<Longrightarrow> readb (take k m) q n = Inl BadAccess"
  by (simp add: readb_def)

lemma call_get_take: "q + 4 \<le> k \<Longrightarrow> call_get g (take k m) q = call_get g m q"
  by (cases g) (simp_all add: be32dec_def load32_def readb_take)

lemma call_get_take_fail: "k < q + 4 \<Longrightarrow> call_get g (take k m) q = Inl BadAccess"
  by (cases g) (simp_all add: be32dec_def load32_def readb_take_fail)

lemma size_loop_truncated:
  "size_loop g m pair = Inr p \<Longrightarrow> k < p \<Longrightarrow> size_loop g (take k m) pair = Inl BadAccess"
proof (induction g m pair rule: size_loop.induct)
  case (1 g m pair)
  from "1.prems"(1) obtain e d where e: "call_get g m pair = Inr e"
    and d: "call_get g m (pair + 4) = Inr d"
    by (subst (asm) size_loop.simps) (auto split: sum.splits)
  show ?case
  proof (cases "pair + 8 \<le> k")
    case True
    then have r: "call_get g (take k m) pair = Inr e" "call_get g (take k m) (pair + 4) = Inr d"
      using e d by (simp_all add: call_get_take)
    show ?thesis
    proof (cases "e \<noteq> 0 \<and> d \<noteq> 0")
      case False
      with "1.prems" e d True show ?thesis
        by (subst (asm) size_loop.simps) auto
    next
      case t: True
      with "1.prems"(1) e d have "size_loop g m (pair + e) = Inr p"
        by (subst (asm) size_loop.simps) simp
      from "1.IH" [OF e d t this "1.prems"(2)] r t show ?thesis
        by (subst size_loop.simps) simp
    qed
  next
    case False
    show ?thesis
    proof (cases "pair + 4 \<le> k")
      case True
      with False e have "call_get g (take k m) pair = Inr e"
        "call_get g (take k m) (pair + 4) = Inl BadAccess"
        by (simp_all add: call_get_take call_get_take_fail)
      then show ?thesis
        by (subst size_loop.simps) simp
    next
      case False
      then have "call_get g (take k m) pair = Inl BadAccess"
        by (simp add: call_get_take_fail)
      then show ?thesis
        by (subst size_loop.simps) simp
    qed
  qed
qed

lemma import_head_ok_take:
  assumes "12 \<le> k"
  shows "import_head_ok (take k stream) = import_head_ok stream"
proof -
  have r: "readb (take k stream) 0 1 = readb stream 0 1" "readb (take k stream) 1 1 = readb stream 1 1"
    "readb (take k stream) 2 1 = readb stream 2 1" "readb (take k stream) 3 1 = readb stream 3 1"
    "be32dec (take k stream) 4 = be32dec stream 4" "be32dec (take k stream) 8 = be32dec stream 8"
    using assms by (simp_all add: be32dec_def readb_take)
  show ?thesis
    unfolding import_head_ok_def r ..
qed

lemma add_pair_head_not_OK:
  "add_pair_head a nvl name type e d = Inr (rv, nvl') \<Longrightarrow> rv \<noteq> OK \<Longrightarrow> rv = ENOMEM \<and> nvl' = nvl"
  by (auto simp: add_pair_head_def Let_def bindf_eq_Inr split: option.splits if_splits)

lemma add_pair_head_rv:
  "add_pair_head a nvl name type e d = Inr (rv, nvl') \<Longrightarrow> rv = OK \<or> rv = ENOMEM"
  by (auto simp: add_pair_head_def Let_def bindf_eq_Inr split: option.splits if_splits)

subsection \<open>Evaluation of the examples\<close>

lemma replicate_numeral_Cons: "replicate (numeral k) x = x # replicate (pred_numeral k) x"
  by (simp add: numeral_eq_Suc)

lemma memcmp_numeral:
  "memcmp m p s (numeral k) =
     (if p < length m
      then (case s of
              [] \<Rightarrow> Inl BadAccess
            | c # s' \<Rightarrow> if m ! p = c then memcmp m (p + 1) s' (pred_numeral k) else Inr False)
      else Inl BadAccess)"
  by (simp add: numeral_eq_Suc)

lemmas eval_defs =
  nvlist_create_def nvlist_add_uint64_def nvlist_add_string_def add_unique_def add_pair_head_def
  write_pair_head_def remove_nvl_def find_nvl_def find_pair.simps pair_present_def
  pair_matches_def nvp_data_of_def load32_def store32_def load64_def store64_def
  readb_def writeb_def le_bytes32_def le_bytes64_def NV_ALIGN_def NV_ALIGN4_def strlen_def
  c_str_def size_sub_def realloc_def sizeof_nvs_data_def sizeof_nvp_header_def NV_VERSION_def
  NV_ENCODE_XDR_def DATA_TYPE_UINT64_def DATA_TYPE_STRING_def bytes_of_def Let_def
  replicate_numeral_Cons memcmp_numeral

lemmas xdr_eval_defs =
  nvlist_export_def nvlist_import_def import_head_ok_def nvlist_size_def size_loop.simps
  xdr_export_def xdr_import_def xdrmem_def xdr_nvs_head_def xdr_nvp_header_def nvp_head_def
  nvp_value_def xdr_value_def xdr_string_def xdr_string_size_def xdr_uint64_def xdr_int64_def
  xdr_u_int_def xdr_int_inplace_def advance_def to_int32_def to_size_t_def be32dec_def
  store_be32_def be_val_def be_bytes32_def stream_of_def
  DATA_TYPE_BOOLEAN_def DATA_TYPE_BYTE_def DATA_TYPE_INT16_def DATA_TYPE_UINT16_def
  DATA_TYPE_INT32_def DATA_TYPE_UINT32_def DATA_TYPE_INT64_def DATA_TYPE_NVLIST_def
  DATA_TYPE_NVLIST_ARRAY_def DATA_TYPE_BOOLEAN_VALUE_def DATA_TYPE_INT8_def DATA_TYPE_UINT8_def
  NV_UNIQUE_NAME_def

lemma create_unique: "nvlist_create True True 1 = Some nvl_created"
  by (simp add: eval_defs)

lemma add_version: "nvlist_add_uint64 alloc_ok nvl_created (bytes_of ''version'') 1 = Inr (OK, nvl_version)"
  by (simp add: eval_defs)

lemma add_bootonce:
  "nvlist_add_string alloc_ok nvl_version (bytes_of ''freebsd:bootonce'') (bytes_of ''zfs:tank:'')
   = Inr (OK, nvl_bootonce)"
  by (simp add: eval_defs)

subsection \<open>Names and types of the pairs\<close>

lemma pair_key_image:
  assumes w: "wf_pair p" and d: "4 dvd length pre"
  shows "pair_key (pre @ image p @ rest) (length pre) = Inr (key p)"
proof -
  let ?N = "length (ap_name p)"
  let ?m = "pre @ image p @ rest"
  let ?A = "pre @ le_bytes32 (psize p) @ le_bytes32 (ap_dec p) @ le_bytes32 ?N"
  have m: "?m = ?A @ ap_name p
        @ (replicate (NV_ALIGN4 ?N - ?N) 0 @ le_bytes32 (ap_type p) @ le_bytes32 1
           @ ap_payload p @ rest)"
    by (simp add: image_def)
  have rd: "readb ?m (length pre + 8 + 4) ?N = Inr (ap_name p)"
    by (rule readb_at [OF m]) simp_all
  show ?thesis
    by (simp only: pair_key_def sizeof_nvp_header_def image_nsize [OF w]
          nvp_data_of_image [OF w d] bindf_Inr image_type [OF w] rd key_def)
qed

lemma pair_keys_images:
  "\<forall>p\<in>set ps. wf_pair p \<Longrightarrow> 4 dvd length pre \<Longrightarrow>
   pair_keys (pre @ images ps @ replicate 8 0 @ rest) (length pre) = Inr (map key ps)"
proof (induction ps arbitrary: pre)
  case Nil
  then show ?case
    by (subst pair_keys.simps) (simp add: pair_present_term)
next
  case (Cons p ps)
  then have w: "wf_pair p" and ws: "\<forall>p\<in>set ps. wf_pair p" by auto
  let ?rest = "images ps @ replicate 8 0 @ rest"
  have d': "4 dvd length (pre @ image p)"
    using Cons.prems(2) psize_dvd [OF w] by simp
  have ih: "pair_keys ((pre @ image p) @ ?rest) (length pre + psize p) = Inr (map key ps)"
    using Cons.IH [OF ws d'] by simp
  show ?case
    by (subst pair_keys.simps)
       (simp add: pair_present_image [OF w] pair_key_image [OF w Cons.prems(2)]
          image_enc [OF w] ih [unfolded append_assoc])
qed

lemma inv_pair_keys:
  assumes "nvl_inv flag nvl ps"
  shows "\<exists>m. nv_data nvl = Some m \<and> pair_keys m 8 = Inr (map key ps)"
proof -
  from assms obtain R where d: "nv_data nvl = Some (layout flag ps @ R)"
    and w: "\<forall>p\<in>set ps. wf_pair p"
    by (rule nvl_invD)
  have "pair_keys (layout flag ps @ R) 8 = Inr (map key ps)"
    using pair_keys_images [OF w, of "le_bytes32 0 @ le_bytes32 flag" R] by (simp add: layout_def)
  with d show ?thesis by simp
qed

lemma remove_first_key:
  assumes "distinct (map key ps)" and "\<forall>p\<in>set ps. P p \<longleftrightarrow> key p = k"
  shows "k \<notin> key ` set (remove_first P ps) \<and> distinct (map key (remove_first P ps)) \<and>
         set (remove_first P ps) \<subseteq> set ps"
  using assms
proof (induction ps)
  case Nil
  then show ?case by simp
next
  case (Cons p ps)
  show ?case
  proof (cases "P p")
    case True
    with Cons.prems have "key p = k" "key p \<notin> key ` set ps" "distinct (map key ps)"
      by auto
    with True show ?thesis by auto
  next
    case False
    with Cons.prems have "key p \<noteq> k" by auto
    moreover from Cons.prems have "distinct (map key ps)" "\<forall>p\<in>set ps. P p \<longleftrightarrow> key p = k"
      by auto
    from Cons.IH [OF this] have "k \<notin> key ` set (remove_first P ps)"
      "distinct (map key (remove_first P ps))" "set (remove_first P ps) \<subseteq> set ps"
      by auto
    moreover from Cons.prems have "key p \<notin> key ` set ps" by auto
    ultimately show ?thesis
      using False by auto
  qed
qed

lemma remove_first_subset:
  "set (remove_first P ps) \<subseteq> set ps" "distinct (map key ps) \<Longrightarrow> distinct (map key (remove_first P ps))"
proof -
  show s: "set (remove_first P ps) \<subseteq> set ps"
    by (induction ps) auto
  show "distinct (map key (remove_first P ps))" if "distinct (map key ps)"
    using that
  proof (induction ps)
    case Nil
    then show ?case by simp
  next
    case (Cons p ps)
    have "set (remove_first P ps) \<subseteq> set ps" by (induction ps) auto
    with Cons show ?case by auto
  qed
qed

lemma unique_add_distinct:
  assumes pf: "prefix_free ns" and n: "c_str name \<in> set ns"
    and q: "distinct (map key ps)" "\<forall>p\<in>set ps. ap_name p \<in> set ns"
    and f: "flag mod 2 \<noteq> 0"
    and k: "key new = (c_str name, type)"
  shows "distinct (map key (unique_ps flag name type ps @ [new]))"
    and "distinct (map key (unique_ps flag name type ps))"
    and "\<forall>p\<in>set (unique_ps flag name type ps @ [new]). ap_name p \<in> set ns"
proof -
  have "\<forall>p\<in>set ps. amatch name type p \<longleftrightarrow> key p = (c_str name, type)"
  proof
    fix p assume "p \<in> set ps"
    with q have "ap_name p \<in> set ns" by auto
    with pf n have "prefix (ap_name p) (c_str name) \<longleftrightarrow> ap_name p = c_str name"
      by (auto simp: prefix_free_def)
    then show "amatch name type p \<longleftrightarrow> key p = (c_str name, type)"
      by (auto simp: amatch_def key_def)
  qed
  from remove_first_key [OF q(1) this] f have
    r: "(c_str name, type) \<notin> key ` set (unique_ps flag name type ps)"
    "distinct (map key (unique_ps flag name type ps))"
    "set (unique_ps flag name type ps) \<subseteq> set ps"
    by (auto simp: unique_ps_def)
  from r k show "distinct (map key (unique_ps flag name type ps @ [new]))"
    by auto
  from r show "distinct (map key (unique_ps flag name type ps))"
    by auto
  from r(3) q(2) n k show "\<forall>p\<in>set (unique_ps flag name type ps @ [new]). ap_name p \<in> set ns"
    by (auto simp: key_def)
qed

subsection \<open>Removal before a failed allocation, and the pairs that stay\<close>

lemma key_new_uint64: "key (new_uint64 name v) = (c_str name, DATA_TYPE_UINT64)"
  by (simp add: key_def new_uint64_def)

lemma key_new_string: "key (new_string name s) = (c_str name, DATA_TYPE_STRING)"
  by (simp add: key_def new_string_def)

lemma remove_first_cong:
  "\<forall>p\<in>set ps. P p \<longleftrightarrow> Q p \<Longrightarrow> remove_first P ps = remove_first Q ps"
  by (induction ps) auto

lemma pos_of_absent: "\<forall>p\<in>set ps. \<not> P p \<Longrightarrow> pos_of P ps off = None"
  by (induction ps arbitrary: off) auto

lemma remove_first_keeps:
  "\<forall>p\<in>set ps. P p \<longrightarrow> key p = k \<Longrightarrow> k' \<in> key ` set ps \<Longrightarrow> k' \<noteq> k \<Longrightarrow>
   k' \<in> key ` set (remove_first P ps)"
  by (induction ps) auto

lemma amatch_exact:
  "exact_names name ps \<Longrightarrow> p \<in> set ps \<Longrightarrow> amatch name type p \<longleftrightarrow> key p = (c_str name, type)"
  by (auto simp: exact_names_def amatch_def key_def)

lemma remove_nvl_absent:
  assumes i: "nvl_inv flag nvl ps" and n: "\<forall>p\<in>set ps. \<not> amatch name type p"
  shows "remove_nvl nvl name type = Inr (ENOENT, nvl)"
proof -
  from i obtain R where d: "nv_data nvl = Some (layout flag ps @ R)"
    and w: "\<forall>p\<in>set ps. wf_pair p"
    by (rule nvl_invD)
  have "find_pair (layout flag ps @ R) name type 8 = Inr None"
    using find_pair_layout [OF w, of flag R name type] pos_of_absent [OF n, of 8] by simp
  then show ?thesis
    by (simp add: remove_nvl_def d)
qed

lemma add_unique_result:
  assumes i: "nvl_inv flag nvl ps"
  shows "\<exists>nvl1. add_unique nvl name type = Inr nvl1 \<and>
           nvl_inv flag nvl1 (unique_ps flag name type ps) \<and> nv_asize nvl1 = nv_asize nvl \<and>
           (flag mod 2 = 0 \<or> (\<forall>p\<in>set ps. \<not> amatch name type p) \<longrightarrow> nvl1 = nvl)"
proof -
  from i obtain R where d: "nv_data nvl = Some (layout flag ps @ R)" and f: "flag < 2 ^ 32"
    by (rule nvl_invD)
  show ?thesis
  proof (cases "flag mod 2 \<noteq> 0")
    case False
    with i show ?thesis
      by (simp add: add_unique_def d load32_flag [OF f] unique_ps_def)
  next
    case True
    from remove_nvl_inv [OF i, of name type] obtain rv nvl' where
      r: "remove_nvl nvl name type = Inr (rv, nvl')"
      and i': "nvl_inv flag nvl' (remove_first (amatch name type) ps)"
      and a: "nv_asize nvl' = nv_asize nvl"
      by auto
    have "nvl' = nvl" if "\<forall>p\<in>set ps. \<not> amatch name type p"
      using remove_nvl_absent [OF i that] r by simp
    with True r i' a show ?thesis
      by (auto simp: add_unique_def d load32_flag [OF f] unique_ps_def)
  qed
qed

lemma add_uint64_enomem:
  "nvlist_add_uint64 a nvl name v = Inr (ENOMEM, nvl') \<Longrightarrow>
   add_unique nvl name DATA_TYPE_UINT64 = Inr nvl'"
  by (auto simp: nvlist_add_uint64_def Let_def bindf_eq_Inr
        split: if_splits option.splits prod.splits dest: add_pair_head_not_OK)

lemma add_string_enomem:
  "nvlist_add_string a nvl name s = Inr (ENOMEM, nvl') \<Longrightarrow>
   add_unique nvl name DATA_TYPE_STRING = Inr nvl'"
  by (auto simp: nvlist_add_string_def Let_def bindf_eq_Inr
        split: if_splits option.splits prod.splits dest: add_pair_head_not_OK)

lemma astep_add_keys:
  assumes pf: "prefix_free ns" and n: "call_name c \<in> set ns" and ad: "is_add c"
    and q: "distinct (map key ps)" "\<forall>p\<in>set ps. ap_name p \<in> set ns"
    and f: "flag mod 2 \<noteq> 0"
    and s: "astep flag c ps ps'"
  shows "distinct (map key ps')" and "\<forall>p\<in>set ps'. ap_name p \<in> set ns"
    and "adds c \<longrightarrow> call_key c \<in> key ` set ps'"
    and "\<forall>k\<in>key ` set ps. k \<noteq> call_key c \<longrightarrow> k \<in> key ` set ps'"
proof -
  obtain name type new where c: "call_name c = c_str name" "call_key c = (c_str name, type)"
    "key new = (c_str name, type)"
    "ps' = unique_ps flag name type ps @ [new] \<or> \<not> adds c \<and> ps' = unique_ps flag name type ps"
  proof (cases c)
    case (ADD_UINT64 a name v)
    with s show ?thesis
      by (intro that [of name DATA_TYPE_UINT64 "new_uint64 name v"]) (auto simp: key_new_uint64)
  next
    case (ADD_STRING a name v)
    with s show ?thesis
      by (intro that [of name DATA_TYPE_STRING "new_string name v"]) (auto simp: key_new_string)
  next
    case (REMOVE name type)
    with ad show ?thesis by simp
  qed
  from n c(1) have n': "c_str name \<in> set ns" by simp
  note d = unique_add_distinct [OF pf n' q f c(3)]
  have m: "\<forall>p\<in>set ps. amatch name type p \<longrightarrow> key p = (c_str name, type)"
    by (auto simp: amatch_def key_def dest!: q(2) [rule_format]
          intro: pf [unfolded prefix_free_def, rule_format, OF _ n'])
  have keep: "k \<in> key ` set (unique_ps flag name type ps)"
    if "k \<in> key ` set ps" "k \<noteq> (c_str name, type)" for k
    using remove_first_keeps [OF m that] that(1) by (simp add: unique_ps_def)
  from c(4) d show "distinct (map key ps')" "\<forall>p\<in>set ps'. ap_name p \<in> set ns"
    by auto
  from c(4) c(3) show "adds c \<longrightarrow> call_key c \<in> key ` set ps'"
    by (auto simp: c(2) image_iff)
  show "\<forall>k\<in>key ` set ps. k \<noteq> call_key c \<longrightarrow> k \<in> key ` set ps'"
  proof (intro ballI impI)
    fix k assume "k \<in> key ` set ps" "k \<noteq> call_key c"
    then have "k \<in> key ` set (unique_ps flag name type ps)"
      unfolding c(2) by (rule keep)
    with c(4) show "k \<in> key ` set ps'"
      by auto
  qed
qed

lemma calls_keys:
  assumes "nvl_inv flag nvl ps" and "flag mod 2 \<noteq> 0"
    and "\<forall>c\<in>set cs. is_add c \<and> call_fits c"
    and "prefix_free ns" and "\<forall>c\<in>set cs. call_name c \<in> set ns"
    and "distinct (map key ps)" and "\<forall>p\<in>set ps. ap_name p \<in> set ns"
  shows "\<exists>nvl' ps'. calls nvl cs = Inr nvl' \<and> nvl_inv flag nvl' ps' \<and> distinct (map key ps') \<and>
           set (kept cs) \<subseteq> key ` set ps' \<and>
           (\<forall>k\<in>key ` set ps. k \<notin> set (map call_key cs) \<longrightarrow> k \<in> key ` set ps')"
  using assms
proof (induction cs arbitrary: nvl ps)
  case Nil
  then show ?case by auto
next
  case (Cons c cs)
  from Cons.prems(3) have fc: "call_fits c" and ac: "is_add c"
    and rest: "\<forall>c\<in>set cs. is_add c \<and> call_fits c"
    by auto
  from Cons.prems(5) have nc: "call_name c \<in> set ns" and ncs: "\<forall>c\<in>set cs. call_name c \<in> set ns"
    by auto
  from call_inv [OF Cons.prems(1) fc] obtain nvl1 ps1 where
    c: "call nvl c = Inr nvl1" and i1: "nvl_inv flag nvl1 ps1" and a: "astep flag c ps ps1"
    by auto
  note k = astep_add_keys [OF Cons.prems(4) nc ac Cons.prems(6,7,2) a]
  from Cons.IH [OF i1 Cons.prems(2) rest Cons.prems(4) ncs k(1,2)] obtain nvl' ps' where
    r: "calls nvl1 cs = Inr nvl'" "nvl_inv flag nvl' ps'" "distinct (map key ps')"
      "set (kept cs) \<subseteq> key ` set ps'"
      "\<forall>k\<in>key ` set ps1. k \<notin> set (map call_key cs) \<longrightarrow> k \<in> key ` set ps'"
    by blast
  have "call_key c \<in> key ` set ps'" if "adds c" "call_key c \<notin> set (map call_key cs)"
    using k(3) r(5) that by blast
  with r(4) have s1: "set (kept (c # cs)) \<subseteq> key ` set ps'"
    by simp
  have s2: "\<forall>k\<in>key ` set ps. k \<notin> set (map call_key (c # cs)) \<longrightarrow> k \<in> key ` set ps'"
  proof (intro ballI impI)
    fix k assume "k \<in> key ` set ps" "k \<notin> set (map call_key (c # cs))"
    then have "k \<in> key ` set ps" "k \<noteq> call_key c" "k \<notin> set (map call_key cs)"
      by auto
    with k(4) have "k \<in> key ` set ps1" "k \<notin> set (map call_key cs)"
      by blast+
    with r(5) show "k \<in> key ` set ps'"
      by blast
  qed
  have "calls nvl (c # cs) = Inr nvl'"
    using c r(1) by simp
  with r(2,3) s1 s2 show ?case
    by blast
qed

subsection \<open>Sizes that wrap around, and the lists of the examples\<close>

lemma c_str_replicate: "b \<noteq> 0 \<Longrightarrow> c_str (replicate n b) = replicate n b"
  by (simp add: c_str_def)

lemma strlen_replicate: "b \<noteq> 0 \<Longrightarrow> strlen (replicate n b) = n"
  by (simp add: strlen_def c_str_replicate)

lemma long_name_faults:
  assumes "strlen name = 4294967256"
  shows "nvlist_add_uint64 (ALLOC_OK junk) nvl_created name v = Inl BadAccess"
  by (simp add: nvlist_add_uint64_def add_unique_def remove_nvl_def find_pair.simps pair_present_def
        add_pair_head_def write_pair_head_def load32_def store32_def readb_def writeb_def
        le_bytes32_def NV_ALIGN_def NV_ALIGN4_def size_sub_def realloc_def sizeof_nvp_header_def
        Let_def assms replicate_numeral_Cons)

lemma long_value_faults:
  assumes "strlen name = 7" "strlen s = 4294967263"
  shows "nvlist_add_string (ALLOC_OK junk) nvl_created name s = Inl BadAccess"
  by (simp add: nvlist_add_string_def add_unique_def remove_nvl_def find_pair.simps pair_present_def
        add_pair_head_def write_pair_head_def load32_def store32_def readb_def writeb_def
        le_bytes32_def NV_ALIGN_def NV_ALIGN4_def size_sub_def realloc_def sizeof_nvp_header_def
        Let_def assms replicate_numeral_Cons)

lemma inv_created: "nvl_inv 1 nvl_created []"
  using nvlist_create_inv [OF create_unique] by simp

lemma inv_version: "nvl_inv 1 nvl_version [new_uint64 (bytes_of ''version'') 1]"
proof -
  have "strlen (bytes_of ''version'') < 2 ^ 30"
    by (simp add: strlen_def c_str_def bytes_of_def)
  from nvlist_add_uint64_inv [OF inv_created this, of alloc_ok 1] obtain rv nvl' where
    a: "nvlist_add_uint64 alloc_ok nvl_created (bytes_of ''version'') 1 = Inr (rv, nvl')"
    and b: "rv = ENOMEM \<or>
      nvl_inv 1 nvl' (unique_ps 1 (bytes_of ''version'') DATA_TYPE_UINT64 []
        @ [new_uint64 (bytes_of ''version'') 1])"
    by blast
  from a have "rv = OK" "nvl' = nvl_version"
    unfolding add_version by simp_all
  with b show ?thesis
    by (simp add: unique_ps_def)
qed


section \<open>The claims\<close>

text \<open>
  C1.  The code does not write the size that the claim gives.  On the list made by
  \<^verbatim>\<open>nvlist_create(NV_UNIQUE_NAME)\<close>, \<^verbatim>\<open>nvlist_add_uint64(nvl, "version", 1)\<close> stores the
  \<^verbatim>\<open>encoded_size\<close> 48 in the header of the new pair (at offset 8), where the formula of
  the claim gives 36; \<^verbatim>\<open>nvlist_add_string(nvl, "freebsd:bootonce", "zfs:tank:")\<close> then
  stores 56 (at offset 56), where the formula gives 52.
\<close>

theorem add_encoded_size_padded:
  "nvlist_add_uint64 alloc_ok nvl_created (bytes_of ''version'') 1 = Inr (OK, nvl_version) \<and>
   bindf (Inr (the (nv_data nvl_version))) (\<lambda>m. load32 m 8) = Inr 48 \<and>
   4 + 4 + 4 + NV_ALIGN4 (strlen (bytes_of ''version'')) + 4 + 4 + NV_ALIGN4 8 = 36 \<and>
   nvlist_add_string alloc_ok nvl_version (bytes_of ''freebsd:bootonce'') (bytes_of ''zfs:tank:'')
     = Inr (OK, nvl_bootonce) \<and>
   bindf (Inr (the (nv_data nvl_bootonce))) (\<lambda>m. load32 m 56) = Inr 56 \<and>
   4 + 4 + 4 + NV_ALIGN4 (strlen (bytes_of ''freebsd:bootonce'')) + 4 + 4
     + NV_ALIGN4 (4 + strlen (bytes_of ''zfs:tank:'')) = 52"
  by (intro conjI add_version add_bootonce)
     (simp_all add: load32_def readb_def NV_ALIGN4_def strlen_def c_str_def bytes_of_def)

text \<open>
  C2.  The round trip fails on a list of two pairs.  After the two calls of C1,
  \<^verbatim>\<open>nvlist_export\<close> (with any fuel from 3 on) translates the first pair only: the codec
  goes on after the 36 bytes it has translated, finds zero bytes of the padding where it
  looks for the next header, and stops, so that the second pair stays in host byte
  order.  \<^verbatim>\<open>nvlist_import\<close> of the stream reads the \<^verbatim>\<open>encoded_size\<close> 56 of the second
  pair as \<open>56 * 2 ^ 24\<close> and its walk leaves the stream.
\<close>

theorem export_import_two_pairs:
  "calls nvl_created
     [ADD_UINT64 alloc_ok (bytes_of ''version'') 1,
      ADD_STRING alloc_ok (bytes_of ''freebsd:bootonce'') (bytes_of ''zfs:tank:'')]
     = Inr nvl_bootonce \<and>
   nvlist_export (Suc (Suc (Suc n))) nvl_bootonce
     = Inr (OK, nvl_bootonce
          \<lparr>nv_data := Some
             [0, 0, 0, 0, 0, 0, 0, 1, 0, 0, 0, 48, 0, 0, 0, 32, 0, 0, 0, 7,
              118, 101, 114, 115, 105, 111, 110, 0, 0, 0, 0, 8, 0, 0, 0, 1,
              0, 0, 0, 0, 0, 0, 0, 1, 0, 0, 0, 0, 0, 0, 0, 0, 0, 0, 0, 0,
              56, 0, 0, 0, 56, 0, 0, 0, 16, 0, 0, 0, 102, 114, 101, 101, 98,
              115, 100, 58, 98, 111, 111, 116, 111, 110, 99, 101, 9, 0, 0,
              0, 1, 0, 0, 0, 9, 0, 0, 0, 122, 102, 115, 58, 116, 97, 110,
              107, 58, 0, 0, 0, 0, 0, 0, 0, 0, 0, 0, 0, 0, 0, 0, 0],
            nv_idx := Some 52\<rparr>) \<and>
   nvlist_import k True True
     (stream_of (nvl_bootonce
          \<lparr>nv_data := Some
             [0, 0, 0, 0, 0, 0, 0, 1, 0, 0, 0, 48, 0, 0, 0, 32, 0, 0, 0, 7,
              118, 101, 114, 115, 105, 111, 110, 0, 0, 0, 0, 8, 0, 0, 0, 1,
              0, 0, 0, 0, 0, 0, 0, 1, 0, 0, 0, 0, 0, 0, 0, 0, 0, 0, 0, 0,
              56, 0, 0, 0, 56, 0, 0, 0, 16, 0, 0, 0, 102, 114, 101, 101, 98,
              115, 100, 58, 98, 111, 111, 116, 111, 110, 99, 101, 9, 0, 0,
              0, 1, 0, 0, 0, 9, 0, 0, 0, 122, 102, 115, 58, 116, 97, 110,
              107, 58, 0, 0, 0, 0, 0, 0, 0, 0, 0, 0, 0, 0, 0, 0, 0],
            nv_idx := Some 52\<rparr>)) = Inl BadAccess"
proof (intro conjI)
  show "calls nvl_created
     [ADD_UINT64 alloc_ok (bytes_of ''version'') 1,
      ADD_STRING alloc_ok (bytes_of ''freebsd:bootonce'') (bytes_of ''zfs:tank:'')]
     = Inr nvl_bootonce"
    using add_version add_bootonce by simp
qed (simp_all add: eval_defs xdr_eval_defs)

text \<open>
  C3, as stated, fails.  \<^verbatim>\<open>nvlist_import\<close> checks nothing of the pairs of a stream.  The
  stream below holds the pairs version and freebsd:bootonce with the sizes 48 and 56
  that the functions of this file give them, every word big-endian.  The import
  translates the first pair and stops in the bytes that pad it, so that the second pair
  stays as it came; the handle is owned.  After
  \<^verbatim>\<open>nvlist_remove(nvl, "version", DATA_TYPE_UINT64)\<close>, which finds the pair, the first
  header of the list passes the loop test and holds the \<^verbatim>\<open>encoded_size\<close> 939524096 in a
  used part of 72 bytes, and the walk over the headers leaves the buffer.  And a name of
  \<open>2 ^ 32 - 40\<close> bytes makes \<^verbatim>\<open>encoded_size\<close> wrap around to 0: \<^verbatim>\<open>nvlist_add_uint64\<close> on
  the list made by \<^verbatim>\<open>nvlist_create\<close> then writes past the end of the buffer.
\<close>

theorem encoded_size_counterexample:
  "nvlist_import (Suc (Suc (Suc 0))) True True
     [1, 1, 0, 0, 0, 0, 0, 0, 0, 0, 0, 1, 0, 0, 0, 48, 0, 0, 0, 32, 0, 0, 0, 7,
      118, 101, 114, 115, 105, 111, 110, 0, 0, 0, 0, 8, 0, 0, 0, 1,
      0, 0, 0, 0, 0, 0, 0, 1, 0, 0, 0, 0, 0, 0, 0, 0, 0, 0, 0, 0,
      0, 0, 0, 56, 0, 0, 0, 56, 0, 0, 0, 16, 102, 114, 101, 101, 98, 115, 100, 58,
      98, 111, 111, 116, 111, 110, 99, 101, 0, 0, 0, 9, 0, 0, 0, 1, 0, 0, 0, 9,
      122, 102, 115, 58, 116, 97, 110, 107, 58, 0, 0, 0, 0, 0, 0, 0,
      0, 0, 0, 0, 0, 0, 0, 0]
     = Inr (Some
         \<lparr>nv_header = \<lparr>nvh_encoding = 1, nvh_endian = 1, nvh_reserved1 = 0, nvh_reserved2 = 0\<rparr>,
          nv_asize = 120, nv_size = 120,
          nv_data = Some
            [0, 0, 0, 0, 1, 0, 0, 0, 48, 0, 0, 0, 32, 0, 0, 0, 7, 0, 0, 0,
             118, 101, 114, 115, 105, 111, 110, 0, 8, 0, 0, 0, 1, 0, 0, 0,
             1, 0, 0, 0, 0, 0, 0, 0, 0, 0, 0, 0, 0, 0, 0, 0, 0, 0, 0, 0,
             0, 0, 0, 56, 0, 0, 0, 56, 0, 0, 0, 16, 102, 114, 101, 101, 98, 115, 100, 58,
             98, 111, 111, 116, 111, 110, 99, 101, 0, 0, 0, 9, 0, 0, 0, 1, 0, 0, 0, 9,
             122, 102, 115, 58, 116, 97, 110, 107, 58, 0, 0, 0, 0, 0, 0, 0,
             0, 0, 0, 0, 0, 0, 0, 0],
          nv_idx = Some 0\<rparr>) \<and>
   calls
     \<lparr>nv_header = \<lparr>nvh_encoding = 1, nvh_endian = 1, nvh_reserved1 = 0, nvh_reserved2 = 0\<rparr>,
      nv_asize = 120, nv_size = 120,
      nv_data = Some
        [0, 0, 0, 0, 1, 0, 0, 0, 48, 0, 0, 0, 32, 0, 0, 0, 7, 0, 0, 0,
         118, 101, 114, 115, 105, 111, 110, 0, 8, 0, 0, 0, 1, 0, 0, 0,
         1, 0, 0, 0, 0, 0, 0, 0, 0, 0, 0, 0, 0, 0, 0, 0, 0, 0, 0, 0,
         0, 0, 0, 56, 0, 0, 0, 56, 0, 0, 0, 16, 102, 114, 101, 101, 98, 115, 100, 58,
         98, 111, 111, 116, 111, 110, 99, 101, 0, 0, 0, 9, 0, 0, 0, 1, 0, 0, 0, 9,
         122, 102, 115, 58, 116, 97, 110, 107, 58, 0, 0, 0, 0, 0, 0, 0,
         0, 0, 0, 0, 0, 0, 0, 0],
      nv_idx = Some 0\<rparr>
     [REMOVE (bytes_of ''version'') DATA_TYPE_UINT64]
     = Inr
         \<lparr>nv_header = \<lparr>nvh_encoding = 1, nvh_endian = 1, nvh_reserved1 = 0, nvh_reserved2 = 0\<rparr>,
          nv_asize = 120, nv_size = 72,
          nv_data = Some
            [0, 0, 0, 0, 1, 0, 0, 0,
             0, 0, 0, 56, 0, 0, 0, 56, 0, 0, 0, 16, 102, 114, 101, 101, 98, 115, 100, 58,
             98, 111, 111, 116, 111, 110, 99, 101, 0, 0, 0, 9, 0, 0, 0, 1, 0, 0, 0, 9,
             122, 102, 115, 58, 116, 97, 110, 107, 58, 0, 0, 0, 0, 0, 0, 0,
             0, 0, 0, 0, 0, 0, 0, 0,
             98, 115, 100, 58, 98, 111, 111, 116, 111, 110, 99, 101, 0, 0, 0, 9,
             0, 0, 0, 1, 0, 0, 0, 9, 122, 102, 115, 58, 116, 97, 110, 107, 58, 0, 0, 0,
             0, 0, 0, 0, 0, 0, 0, 0, 0, 0, 0, 0],
          nv_idx = Some 0\<rparr> \<and>
   pair_present
     [0, 0, 0, 0, 1, 0, 0, 0,
      0, 0, 0, 56, 0, 0, 0, 56, 0, 0, 0, 16, 102, 114, 101, 101, 98, 115, 100, 58,
      98, 111, 111, 116, 111, 110, 99, 101, 0, 0, 0, 9, 0, 0, 0, 1, 0, 0, 0, 9,
      122, 102, 115, 58, 116, 97, 110, 107, 58, 0, 0, 0, 0, 0, 0, 0,
      0, 0, 0, 0, 0, 0, 0, 0,
      98, 115, 100, 58, 98, 111, 111, 116, 111, 110, 99, 101, 0, 0, 0, 9,
      0, 0, 0, 1, 0, 0, 0, 9, 122, 102, 115, 58, 116, 97, 110, 107, 58, 0, 0, 0,
      0, 0, 0, 0, 0, 0, 0, 0, 0, 0, 0, 0] 8 = Inr True \<and>
   load32
     [0, 0, 0, 0, 1, 0, 0, 0,
      0, 0, 0, 56, 0, 0, 0, 56, 0, 0, 0, 16, 102, 114, 101, 101, 98, 115, 100, 58,
      98, 111, 111, 116, 111, 110, 99, 101, 0, 0, 0, 9, 0, 0, 0, 1, 0, 0, 0, 9,
      122, 102, 115, 58, 116, 97, 110, 107, 58, 0, 0, 0, 0, 0, 0, 0,
      0, 0, 0, 0, 0, 0, 0, 0,
      98, 115, 100, 58, 98, 111, 111, 116, 111, 110, 99, 101, 0, 0, 0, 9,
      0, 0, 0, 1, 0, 0, 0, 9, 122, 102, 115, 58, 116, 97, 110, 107, 58, 0, 0, 0,
      0, 0, 0, 0, 0, 0, 0, 0, 0, 0, 0, 0] 8 = Inr 939524096 \<and>
   list_end
     [0, 0, 0, 0, 1, 0, 0, 0,
      0, 0, 0, 56, 0, 0, 0, 56, 0, 0, 0, 16, 102, 114, 101, 101, 98, 115, 100, 58,
      98, 111, 111, 116, 111, 110, 99, 101, 0, 0, 0, 9, 0, 0, 0, 1, 0, 0, 0, 9,
      122, 102, 115, 58, 116, 97, 110, 107, 58, 0, 0, 0, 0, 0, 0, 0,
      0, 0, 0, 0, 0, 0, 0, 0,
      98, 115, 100, 58, 98, 111, 111, 116, 111, 110, 99, 101, 0, 0, 0, 9,
      0, 0, 0, 1, 0, 0, 0, 9, 122, 102, 115, 58, 116, 97, 110, 107, 58, 0, 0, 0,
      0, 0, 0, 0, 0, 0, 0, 0, 0, 0, 0, 0] 8 = Inl BadAccess \<and>
   calls nvl_created [ADD_UINT64 alloc_ok (replicate 4294967256 97) 1] = Inl BadAccess"
proof (intro conjI)
  show "calls nvl_created [ADD_UINT64 alloc_ok (replicate 4294967256 97) 1] = Inl BadAccess"
    by (simp add: long_name_faults strlen_replicate)
qed (simp_all add: eval_defs xdr_eval_defs list_end.simps)

text \<open>
  C3, amended.  A list is well formed, \<open>nvl_inv flag nvl ps\<close>, when its buffer has
  \<^verbatim>\<open>nv_asize\<close> bytes and the used part of the buffer is the version 0, the flags, the
  pairs \<open>ps\<close> one after the other and 8 zero bytes, where every pair takes as many bytes
  as its \<^verbatim>\<open>encoded_size\<close> says, with \<^verbatim>\<open>encoded_size + 8\<close> below \<open>2 ^ 32\<close>, and holds a
  \<^verbatim>\<open>decoded_size\<close> that is not 0, the length of its name, the name without a NUL and
  padded with zeros to a multiple of 4 bytes, its type, the number of elements 1 and a
  value of a multiple of 4 bytes.  A list made by \<^verbatim>\<open>nvlist_create\<close> is well formed
  (\<open>nvlist_create_inv\<close>); a list made by \<^verbatim>\<open>nvlist_import\<close> need not be.  After any
  sequence of calls of \<^verbatim>\<open>nvlist_add_uint64\<close>, \<^verbatim>\<open>nvlist_add_string\<close> and \<^verbatim>\<open>nvlist_remove\<close>
  on a well-formed list, with names and string values shorter than \<open>2 ^ 30\<close> bytes, no
  call faults and the headers of the list form a chain: the first header is at offset
  8, every header of a pair stores in \<^verbatim>\<open>encoded_size\<close> the distance to the next header,
  and the last header is the terminator, which ends where the used part of the buffer
  ends.
\<close>

theorem encoded_size_is_distance:
  assumes "nvl_inv flag nvl0 ps" and "\<forall>c\<in>set cs. call_fits c"
  shows "\<exists>nvl m hs. calls nvl0 cs = Inr nvl \<and> nv_data nvl = Some m \<and> nv_size nvl \<le> length m \<and>
           pair_chain m hs \<and> hd hs = 8 \<and> last hs + 8 = nv_size nvl"
proof -
  from calls_inv [OF assms, of "\<lambda>ps. True"] obtain nvl ps' where
    "calls nvl0 cs = Inr nvl" "nvl_inv flag nvl ps'"
    by auto
  with inv_chain [OF this(2)] show ?thesis
    by auto
qed

text \<open>
  C3 amended, at the list that \<^verbatim>\<open>nvlist_create(NV_UNIQUE_NAME)\<close> returns and four calls,
  one of them with a realloc that fails.
\<close>

theorem encoded_size_is_distance_witness:
  "nvl_inv 1 nvl_created [] \<and>
   list_all call_fits
     [ADD_STRING (ALLOC_OK (\<lambda>i. 85)) (bytes_of ''freebsd:bootonce'') (bytes_of ''zfs:tank:''),
      ADD_UINT64 ALLOC_FAIL (bytes_of ''version'') 1,
      REMOVE (bytes_of ''k'') DATA_TYPE_STRING,
      ADD_UINT64 (ALLOC_OK (\<lambda>i. 85)) (bytes_of ''version'') 2] \<and>
   (\<exists>nvl m hs. calls nvl_created
     [ADD_STRING (ALLOC_OK (\<lambda>i. 85)) (bytes_of ''freebsd:bootonce'') (bytes_of ''zfs:tank:''),
      ADD_UINT64 ALLOC_FAIL (bytes_of ''version'') 1,
      REMOVE (bytes_of ''k'') DATA_TYPE_STRING,
      ADD_UINT64 (ALLOC_OK (\<lambda>i. 85)) (bytes_of ''version'') 2] = Inr nvl \<and>
      nv_data nvl = Some m \<and> nv_size nvl \<le> length m \<and>
      pair_chain m hs \<and> hd hs = 8 \<and> last hs + 8 = nv_size nvl)"
proof -
  have h3: "list_all call_fits
     [ADD_STRING (ALLOC_OK (\<lambda>i. 85)) (bytes_of ''freebsd:bootonce'') (bytes_of ''zfs:tank:''),
      ADD_UINT64 ALLOC_FAIL (bytes_of ''version'') 1,
      REMOVE (bytes_of ''k'') DATA_TYPE_STRING,
      ADD_UINT64 (ALLOC_OK (\<lambda>i. 85)) (bytes_of ''version'') 2]"
    by (simp add: strlen_def c_str_def bytes_of_def)
  then have h2: "\<forall>c\<in>set
     [ADD_STRING (ALLOC_OK (\<lambda>i. 85)) (bytes_of ''freebsd:bootonce'') (bytes_of ''zfs:tank:''),
      ADD_UINT64 ALLOC_FAIL (bytes_of ''version'') 1,
      REMOVE (bytes_of ''k'') DATA_TYPE_STRING,
      ADD_UINT64 (ALLOC_OK (\<lambda>i. 85)) (bytes_of ''version'') 2]. call_fits c"
    by simp
  show ?thesis
    by (intro conjI inv_created h3 encoded_size_is_distance [OF inv_created h2])
qed

text \<open>
  C4, as stated, fails.  The loops of this file end at a header in which one of the two
  sizes is 0, and \<^verbatim>\<open>nvlist_import\<close> takes the stream below, whose only header holds the
  sizes 5 and 0, as an empty list; the handle is owned.  After
  \<^verbatim>\<open>nvlist_remove(nvl, "version", DATA_TYPE_UINT64)\<close>, which finds no pair, the last 8
  bytes of the used part are 5, 0, 0, 0, 0, 0, 0, 0.  And a string value of
  \<open>2 ^ 32 - 33\<close> bytes under the name version makes \<^verbatim>\<open>encoded_size\<close> wrap around to 0:
  \<^verbatim>\<open>nvlist_add_string\<close> on the list made by \<^verbatim>\<open>nvlist_create\<close> then writes past the end of
  the buffer.
\<close>

theorem terminator_counterexample:
  "nvlist_import (Suc (Suc 0)) True True
     [1, 1, 0, 0, 0, 0, 0, 0, 0, 0, 0, 1, 0, 0, 0, 5, 0, 0, 0, 0]
     = Inr (Some
         \<lparr>nv_header = \<lparr>nvh_encoding = 1, nvh_endian = 1, nvh_reserved1 = 0, nvh_reserved2 = 0\<rparr>,
          nv_asize = 16, nv_size = 16,
          nv_data = Some [0, 0, 0, 0, 1, 0, 0, 0, 5, 0, 0, 0, 0, 0, 0, 0],
          nv_idx = Some 0\<rparr>) \<and>
   calls
     \<lparr>nv_header = \<lparr>nvh_encoding = 1, nvh_endian = 1, nvh_reserved1 = 0, nvh_reserved2 = 0\<rparr>,
      nv_asize = 16, nv_size = 16,
      nv_data = Some [0, 0, 0, 0, 1, 0, 0, 0, 5, 0, 0, 0, 0, 0, 0, 0],
      nv_idx = Some 0\<rparr>
     [REMOVE (bytes_of ''version'') DATA_TYPE_UINT64]
     = Inr
         \<lparr>nv_header = \<lparr>nvh_encoding = 1, nvh_endian = 1, nvh_reserved1 = 0, nvh_reserved2 = 0\<rparr>,
          nv_asize = 16, nv_size = 16,
          nv_data = Some [0, 0, 0, 0, 1, 0, 0, 0, 5, 0, 0, 0, 0, 0, 0, 0],
          nv_idx = Some 0\<rparr> \<and>
   take 8 (drop (16 - 8) [0, 0, 0, 0, 1, 0, 0, 0, 5, 0, 0, 0, 0, 0, 0, 0 :: byte])
     = [5, 0, 0, 0, 0, 0, 0, 0] \<and>
   [5, 0, 0, 0, 0, 0, 0, 0] \<noteq> replicate 8 (0 :: byte) \<and>
   calls nvl_created [ADD_STRING alloc_ok (bytes_of ''version'') (replicate 4294967263 97)]
     = Inl BadAccess"
proof (intro conjI)
  have "strlen (bytes_of ''version'') = 7"
    by (simp add: strlen_def c_str_def bytes_of_def)
  from long_value_faults [OF this, of "replicate 4294967263 97"]
  show "calls nvl_created [ADD_STRING alloc_ok (bytes_of ''version'') (replicate 4294967263 97)]
     = Inl BadAccess"
    by (simp add: strlen_replicate)
qed (simp_all add: eval_defs xdr_eval_defs)

text \<open>
  C4, amended.  After any sequence of calls of \<^verbatim>\<open>nvlist_add_uint64\<close>,
  \<^verbatim>\<open>nvlist_add_string\<close> and \<^verbatim>\<open>nvlist_remove\<close> on a well-formed list (\<open>nvl_inv\<close>, as for C3:
  every list made by \<^verbatim>\<open>nvlist_create\<close> is one), with names and string values shorter than
  \<open>2 ^ 30\<close> bytes, no call faults and the last 8 bytes of the used part of the buffer are
  zero: the terminator of the list.
\<close>

theorem terminator_invariant:
  assumes "nvl_inv flag nvl0 ps" and "\<forall>c\<in>set cs. call_fits c"
  shows "\<exists>nvl m. calls nvl0 cs = Inr nvl \<and> nv_data nvl = Some m \<and>
           8 \<le> nv_size nvl \<and> nv_size nvl \<le> length m \<and>
           take 8 (drop (nv_size nvl - 8) m) = replicate 8 0"
proof -
  from calls_inv [OF assms, of "\<lambda>ps. True"] obtain nvl ps' where
    "calls nvl0 cs = Inr nvl" "nvl_inv flag nvl ps'"
    by auto
  with inv_terminator [OF this(2)] show ?thesis
    by auto
qed

text \<open>
  C4 amended, at the list with the pair version and two calls.
\<close>

theorem terminator_invariant_witness:
  "nvl_inv 1 nvl_version [new_uint64 (bytes_of ''version'') 1] \<and>
   list_all call_fits
     [ADD_STRING (ALLOC_OK (\<lambda>i. 170)) (bytes_of ''freebsd:bootonce'') (bytes_of ''zfs:tank:''),
      REMOVE (bytes_of ''version'') DATA_TYPE_UINT64] \<and>
   (\<exists>nvl m. calls nvl_version
               [ADD_STRING (ALLOC_OK (\<lambda>i. 170)) (bytes_of ''freebsd:bootonce'') (bytes_of ''zfs:tank:''),
                REMOVE (bytes_of ''version'') DATA_TYPE_UINT64] = Inr nvl \<and>
      nv_data nvl = Some m \<and> 8 \<le> nv_size nvl \<and> nv_size nvl \<le> length m \<and>
      take 8 (drop (nv_size nvl - 8) m) = replicate 8 0)"
proof -
  have h2: "\<forall>c\<in>set [ADD_STRING (ALLOC_OK (\<lambda>i. 170)) (bytes_of ''freebsd:bootonce'') (bytes_of ''zfs:tank:''),
              REMOVE (bytes_of ''version'') DATA_TYPE_UINT64]. call_fits c"
    by (simp add: strlen_def c_str_def bytes_of_def)
  have h3: "list_all call_fits
     [ADD_STRING (ALLOC_OK (\<lambda>i. 170)) (bytes_of ''freebsd:bootonce'') (bytes_of ''zfs:tank:''),
      REMOVE (bytes_of ''version'') DATA_TYPE_UINT64]"
    using h2 by simp
  show ?thesis
    by (intro conjI inv_version h3 terminator_invariant [OF inv_version h2])
qed

text \<open>
  C5, as stated, fails: under \<^verbatim>\<open>NV_UNIQUE_NAME\<close> the functions remove a pair of the
  same name and the same type only.  After \<^verbatim>\<open>nvlist_add_uint64(nvl, "k", 1)\<close> and
  \<^verbatim>\<open>nvlist_add_string(nvl, "k", "v")\<close> the list holds two pairs of the name k.
\<close>

theorem unique_name_counterexample:
  "calls nvl_created
     [ADD_UINT64 alloc_ok (bytes_of ''k'') 1, ADD_STRING alloc_ok (bytes_of ''k'') (bytes_of ''v'')]
     = Inr \<lparr>nv_header = \<lparr>nvh_encoding = 1, nvh_endian = 1, nvh_reserved1 = 0, nvh_reserved2 = 0\<rparr>,
        nv_asize = 96, nv_size = 96,
        nv_data = Some
           [0, 0, 0, 0, 1, 0, 0, 0, 44, 0, 0, 0, 32, 0, 0, 0, 1, 0, 0, 0,
            107, 0, 0, 0, 8, 0, 0, 0, 1, 0, 0, 0, 1, 0, 0, 0, 0, 0, 0, 0, 0,
            0, 0, 0, 0, 0, 0, 0, 0, 0, 0, 0, 36, 0, 0, 0, 32, 0, 0, 0, 1, 0,
            0, 0, 107, 0, 0, 0, 9, 0, 0, 0, 1, 0, 0, 0, 1, 0, 0, 0, 118, 0,
            0, 0, 0, 0, 0, 0, 0, 0, 0, 0, 0, 0, 0, 0],
        nv_idx = Some 84\<rparr> \<and>
   pair_keys
           [0, 0, 0, 0, 1, 0, 0, 0, 44, 0, 0, 0, 32, 0, 0, 0, 1, 0, 0, 0,
            107, 0, 0, 0, 8, 0, 0, 0, 1, 0, 0, 0, 1, 0, 0, 0, 0, 0, 0, 0, 0,
            0, 0, 0, 0, 0, 0, 0, 0, 0, 0, 0, 36, 0, 0, 0, 32, 0, 0, 0, 1, 0,
            0, 0, 107, 0, 0, 0, 9, 0, 0, 0, 1, 0, 0, 0, 1, 0, 0, 0, 118, 0,
            0, 0, 0, 0, 0, 0, 0, 0, 0, 0, 0, 0, 0, 0] 8
     = Inr [(bytes_of ''k'', DATA_TYPE_UINT64), (bytes_of ''k'', DATA_TYPE_STRING)] \<and>
   \<not> distinct (map fst [(bytes_of ''k'', DATA_TYPE_UINT64), (bytes_of ''k'', DATA_TYPE_STRING)])"
  by (simp add: eval_defs pair_keys.simps pair_key_def)

text \<open>
  C5, amended.  For a list made by \<^verbatim>\<open>nvlist_create\<close> with the flag \<^verbatim>\<open>NV_UNIQUE_NAME\<close>,
  after any sequence of calls of \<^verbatim>\<open>nvlist_add_uint64\<close> and \<^verbatim>\<open>nvlist_add_string\<close>, with
  names and string values shorter than \<open>2 ^ 30\<close> bytes, in which no name is a proper
  prefix of another name: no call faults; no two pairs of the list have both the same
  name and the same type; and the list holds a pair of the name and the type of every
  call whose realloc does not fail and whose name and type no later call of the sequence
  has (\<open>kept\<close>).  So a later call with the same name and another type leaves a pair
  alone: after \<^verbatim>\<open>nvlist_add_uint64(nvl, k, n)\<close> and \<^verbatim>\<open>nvlist_add_string(nvl, k, v)\<close> the
  list holds two pairs of the name k.
\<close>

theorem unique_name_same_type:
  assumes c: "nvlist_create True True flag = Some nvl0" and u: "flag mod 2 = 1"
    and a: "\<forall>c\<in>set cs. is_add c \<and> call_fits c"
    and pf: "prefix_free (map call_name cs)"
  shows "\<exists>nvl m ks. calls nvl0 cs = Inr nvl \<and> nv_data nvl = Some m \<and>
           pair_keys m 8 = Inr ks \<and> distinct ks \<and> set (kept cs) \<subseteq> set ks"
proof -
  define f where "f = nat (flag mod 2 ^ 32)"
  have "flag mod 2 ^ 32 mod 2 = flag mod 2"
    by (rule mod_mod_cancel) simp
  moreover have "nat (flag mod 2 ^ 32) mod 2 = nat (flag mod 2 ^ 32 mod 2)"
    by (simp add: nat_mod_distrib)
  ultimately have fo: "f mod 2 \<noteq> 0"
    using u unfolding f_def by simp
  have i0: "nvl_inv f nvl0 []"
    unfolding f_def by (rule nvlist_create_inv [OF c])
  from calls_keys [OF i0 fo a pf] obtain nvl ps where
    r: "calls nvl0 cs = Inr nvl" "nvl_inv f nvl ps" "distinct (map key ps)"
      "set (kept cs) \<subseteq> key ` set ps"
    by auto
  from inv_pair_keys [OF r(2)] obtain m where "nv_data nvl = Some m" "pair_keys m 8 = Inr (map key ps)"
    by auto
  with r show ?thesis
    by auto
qed

text \<open>
  C5 amended, at four calls on the name k and the name version, one of them with a
  realloc that fails: the pair k of the type uint64 stays when the strings of the name
  k are added.
\<close>

theorem unique_name_same_type_witness:
  "nvlist_create True True 1 = Some nvl_created \<and> (1::int) mod 2 = 1 \<and>
   list_all (\<lambda>c. is_add c \<and> call_fits c)
     [ADD_UINT64 alloc_ok (bytes_of ''k'') 1, ADD_STRING alloc_ok (bytes_of ''k'') (bytes_of ''v''),
      ADD_STRING ALLOC_FAIL (bytes_of ''k'') (bytes_of ''w''),
      ADD_UINT64 alloc_ok (bytes_of ''version'') 2] \<and>
   prefix_free (map call_name
     [ADD_UINT64 alloc_ok (bytes_of ''k'') 1, ADD_STRING alloc_ok (bytes_of ''k'') (bytes_of ''v''),
      ADD_STRING ALLOC_FAIL (bytes_of ''k'') (bytes_of ''w''),
      ADD_UINT64 alloc_ok (bytes_of ''version'') 2]) \<and>
   kept
     [ADD_UINT64 alloc_ok (bytes_of ''k'') 1, ADD_STRING alloc_ok (bytes_of ''k'') (bytes_of ''v''),
      ADD_STRING ALLOC_FAIL (bytes_of ''k'') (bytes_of ''w''),
      ADD_UINT64 alloc_ok (bytes_of ''version'') 2]
     = [(bytes_of ''k'', DATA_TYPE_UINT64), (bytes_of ''version'', DATA_TYPE_UINT64)] \<and>
   (\<exists>nvl m ks. calls nvl_created
     [ADD_UINT64 alloc_ok (bytes_of ''k'') 1, ADD_STRING alloc_ok (bytes_of ''k'') (bytes_of ''v''),
      ADD_STRING ALLOC_FAIL (bytes_of ''k'') (bytes_of ''w''),
      ADD_UINT64 alloc_ok (bytes_of ''version'') 2] = Inr nvl \<and>
      nv_data nvl = Some m \<and> pair_keys m 8 = Inr ks \<and> distinct ks \<and>
      set (kept
        [ADD_UINT64 alloc_ok (bytes_of ''k'') 1, ADD_STRING alloc_ok (bytes_of ''k'') (bytes_of ''v''),
         ADD_STRING ALLOC_FAIL (bytes_of ''k'') (bytes_of ''w''),
         ADD_UINT64 alloc_ok (bytes_of ''version'') 2]) \<subseteq> set ks)"
proof -
  let ?cs = "[ADD_UINT64 alloc_ok (bytes_of ''k'') 1, ADD_STRING alloc_ok (bytes_of ''k'') (bytes_of ''v''),
      ADD_STRING ALLOC_FAIL (bytes_of ''k'') (bytes_of ''w''),
      ADD_UINT64 alloc_ok (bytes_of ''version'') 2]"
  have h1: "nvlist_create True True 1 = Some nvl_created"
    by (rule create_unique)
  have h2: "(1::int) mod 2 = 1"
    by simp
  have h3: "list_all (\<lambda>c. is_add c \<and> call_fits c) ?cs"
    by (simp add: strlen_def c_str_def bytes_of_def)
  then have h3': "\<forall>c\<in>set ?cs. is_add c \<and> call_fits c"
    by simp
  have h4: "prefix_free (map call_name ?cs)"
    by (simp add: prefix_free_def c_str_def bytes_of_def)
  have h5: "kept ?cs = [(bytes_of ''k'', DATA_TYPE_UINT64), (bytes_of ''version'', DATA_TYPE_UINT64)]"
    by (simp add: c_str_def bytes_of_def DATA_TYPE_UINT64_def DATA_TYPE_STRING_def)
  show ?thesis
    by (intro conjI h1 h2 h3 h4 h5 unique_name_same_type [OF h1 h2 h3' h4])
qed

text \<open>
  C6, as stated, fails: \<^verbatim>\<open>nvlist_add_uint64(nvl, "version", 2)\<close> on the list that holds
  the pair version, with a realloc that fails, returns \<^verbatim>\<open>ENOMEM\<close> after
  \<^verbatim>\<open>nvlist_remove\<close> has taken the old pair out: the used size is 16 instead of 64 and
  the bytes from offset 8 on have changed.
\<close>

theorem add_enomem_counterexample:
  "nvlist_add_uint64 ALLOC_FAIL nvl_version (bytes_of ''version'') 2
     = Inr (ENOMEM,
         \<lparr>nv_header = \<lparr>nvh_encoding = 1, nvh_endian = 1, nvh_reserved1 = 0, nvh_reserved2 = 0\<rparr>,
          nv_asize = 64, nv_size = 16,
          nv_data = Some
            [0, 0, 0, 0, 1, 0, 0, 0, 0, 0, 0, 0, 0, 0, 0, 0, 7, 0, 0, 0,
             118, 101, 114, 115, 105, 111, 110, 0, 8, 0, 0, 0, 1, 0, 0, 0,
             1, 0, 0, 0, 0, 0, 0, 0, 0, 0, 0, 0, 0, 0, 0, 0, 0, 0, 0, 0, 0,
             0, 0, 0, 0, 0, 0, 0],
          nv_idx = Some 36\<rparr>) \<and>
   nv_size nvl_version = 64 \<and>
   nv_data nvl_version \<noteq> Some
            [0, 0, 0, 0, 1, 0, 0, 0, 0, 0, 0, 0, 0, 0, 0, 0, 7, 0, 0, 0,
             118, 101, 114, 115, 105, 111, 110, 0, 8, 0, 0, 0, 1, 0, 0, 0,
             1, 0, 0, 0, 0, 0, 0, 0, 0, 0, 0, 0, 0, 0, 0, 0, 0, 0, 0, 0, 0,
             0, 0, 0, 0, 0, 0, 0]"
  by (simp add: eval_defs)

text \<open>
  C6, amended.  Let \<^verbatim>\<open>nvlist_add_uint64\<close> or \<^verbatim>\<open>nvlist_add_string\<close> return \<^verbatim>\<open>ENOMEM\<close> on a
  well-formed list (\<open>nvl_inv\<close>, as for C3) none of whose names is a proper prefix of
  the name of the call.  The size of the buffer is as before.  When the flags of the
  list have \<^verbatim>\<open>NV_UNIQUE_NAME\<close> and the list holds a pair of the name and the type of the
  call, the first such pair has been removed, and nothing else: the list is well formed
  with the other pairs in their order, its used part being the version, the flags,
  these pairs and the terminator; the removal is not undone.  Otherwise the handle and
  the buffer are as they were before the call.
\<close>

theorem add_enomem_after_remove:
  assumes i: "nvl_inv flag nvl ps" and x: "exact_names name ps"
    and e: "nvlist_add_uint64 a nvl name v = Inr (ENOMEM, nvl') \<and> type = DATA_TYPE_UINT64 \<or>
            nvlist_add_string a nvl name s = Inr (ENOMEM, nvl') \<and> type = DATA_TYPE_STRING"
  shows "nv_asize nvl' = nv_asize nvl \<and>
         (if flag mod 2 = 1 \<and> (c_str name, type) \<in> key ` set ps
          then nvl_inv flag nvl' (remove_first (\<lambda>p. key p = (c_str name, type)) ps)
          else nvl' = nvl)"
proof -
  from e have u: "add_unique nvl name type = Inr nvl'"
    by (auto dest: add_uint64_enomem add_string_enomem)
  from add_unique_result [OF i, of name type] u have
    r: "nvl_inv flag nvl' (unique_ps flag name type ps)" "nv_asize nvl' = nv_asize nvl"
      "flag mod 2 = 0 \<or> (\<forall>p\<in>set ps. \<not> amatch name type p) \<longrightarrow> nvl' = nvl"
    by auto
  have m: "\<forall>p\<in>set ps. amatch name type p \<longleftrightarrow> key p = (c_str name, type)"
    using amatch_exact [OF x] by blast
  show ?thesis
  proof (cases "flag mod 2 = 1 \<and> (c_str name, type) \<in> key ` set ps")
    case True
    then have "unique_ps flag name type ps = remove_first (\<lambda>p. key p = (c_str name, type)) ps"
      using remove_first_cong [OF m] by (simp add: unique_ps_def)
    with r(1) have "nvl_inv flag nvl' (remove_first (\<lambda>p. key p = (c_str name, type)) ps)"
      by simp
    with r(2) show ?thesis
      unfolding if_P [OF True] by (intro conjI)
  next
    case False
    have "\<forall>p\<in>set ps. \<not> amatch name type p" if "(c_str name, type) \<notin> key ` set ps"
      using that m by (auto simp: image_iff)
    with False have "flag mod 2 = 0 \<or> (\<forall>p\<in>set ps. \<not> amatch name type p)"
      by (cases "flag mod 2 = 1") auto
    with r(3) have "nvl' = nvl"
      by blast
    with r(2) show ?thesis
      unfolding if_not_P [OF False] by (intro conjI)
  qed
qed

text \<open>
  C6 amended, at the call of the counterexample: the list with the pair version is left
  as the well-formed list without pairs.
\<close>

theorem add_enomem_after_remove_witness:
  "nvl_inv 1 nvl_version [new_uint64 (bytes_of ''version'') 1] \<and>
   exact_names (bytes_of ''version'') [new_uint64 (bytes_of ''version'') 1] \<and>
   nvlist_add_uint64 ALLOC_FAIL nvl_version (bytes_of ''version'') 2
     = Inr (ENOMEM,
         \<lparr>nv_header = \<lparr>nvh_encoding = 1, nvh_endian = 1, nvh_reserved1 = 0, nvh_reserved2 = 0\<rparr>,
          nv_asize = 64, nv_size = 16,
          nv_data = Some
            [0, 0, 0, 0, 1, 0, 0, 0, 0, 0, 0, 0, 0, 0, 0, 0, 7, 0, 0, 0,
             118, 101, 114, 115, 105, 111, 110, 0, 8, 0, 0, 0, 1, 0, 0, 0,
             1, 0, 0, 0, 0, 0, 0, 0, 0, 0, 0, 0, 0, 0, 0, 0, 0, 0, 0, 0, 0,
             0, 0, 0, 0, 0, 0, 0],
          nv_idx = Some 36\<rparr>) \<and>
   nvl_inv 1
     \<lparr>nv_header = \<lparr>nvh_encoding = 1, nvh_endian = 1, nvh_reserved1 = 0, nvh_reserved2 = 0\<rparr>,
      nv_asize = 64, nv_size = 16,
      nv_data = Some
        [0, 0, 0, 0, 1, 0, 0, 0, 0, 0, 0, 0, 0, 0, 0, 0, 7, 0, 0, 0,
         118, 101, 114, 115, 105, 111, 110, 0, 8, 0, 0, 0, 1, 0, 0, 0,
         1, 0, 0, 0, 0, 0, 0, 0, 0, 0, 0, 0, 0, 0, 0, 0, 0, 0, 0, 0, 0,
         0, 0, 0, 0, 0, 0, 0],
      nv_idx = Some 36\<rparr> []"
proof -
  let ?p = "new_uint64 (bytes_of ''version'') 1"
  have c: "nvl_inv 1 nvl_created []"
    using nvlist_create_inv [OF create_unique] by simp
  have "strlen (bytes_of ''version'') < 2 ^ 30"
    by (simp add: strlen_def c_str_def bytes_of_def)
  from nvlist_add_uint64_inv [OF c this, of alloc_ok 1] obtain rv nvl' where
    a: "nvlist_add_uint64 alloc_ok nvl_created (bytes_of ''version'') 1 = Inr (rv, nvl')"
    and b: "rv = ENOMEM \<or> nvl_inv 1 nvl' (unique_ps 1 (bytes_of ''version'') DATA_TYPE_UINT64 [] @ [?p])"
    by blast
  from a have "rv = OK" "nvl' = nvl_version"
    unfolding add_version by simp_all
  with b have h1: "nvl_inv 1 nvl_version [?p]"
    by (simp add: unique_ps_def)
  have h2: "exact_names (bytes_of ''version'') [?p]"
    by (simp add: exact_names_def new_uint64_def)
  have h3: "nvlist_add_uint64 ALLOC_FAIL nvl_version (bytes_of ''version'') 2
     = Inr (ENOMEM,
         \<lparr>nv_header = \<lparr>nvh_encoding = 1, nvh_endian = 1, nvh_reserved1 = 0, nvh_reserved2 = 0\<rparr>,
          nv_asize = 64, nv_size = 16,
          nv_data = Some
            [0, 0, 0, 0, 1, 0, 0, 0, 0, 0, 0, 0, 0, 0, 0, 0, 7, 0, 0, 0,
             118, 101, 114, 115, 105, 111, 110, 0, 8, 0, 0, 0, 1, 0, 0, 0,
             1, 0, 0, 0, 0, 0, 0, 0, 0, 0, 0, 0, 0, 0, 0, 0, 0, 0, 0, 0, 0,
             0, 0, 0, 0, 0, 0, 0],
          nv_idx = Some 36\<rparr>)"
    by (simp add: eval_defs)
  let ?k = "(c_str (bytes_of ''version''), DATA_TYPE_UINT64)"
  have k: "key ?p = ?k"
    by (rule key_new_uint64)
  have cnd: "(1::nat) mod 2 = 1 \<and> ?k \<in> key ` set [?p]"
    unfolding k [symmetric] by simp
  have rf: "remove_first (\<lambda>p. key p = ?k) [?p] = []"
    unfolding k [symmetric] by simp
  note t = add_enomem_after_remove [OF h1 h2, of ALLOC_FAIL 2 _ DATA_TYPE_UINT64, OF disjI1,
      OF conjI, OF h3 refl]
  have "nvl_inv 1
     \<lparr>nv_header = \<lparr>nvh_encoding = 1, nvh_endian = 1, nvh_reserved1 = 0, nvh_reserved2 = 0\<rparr>,
      nv_asize = 64, nv_size = 16,
      nv_data = Some
        [0, 0, 0, 0, 1, 0, 0, 0, 0, 0, 0, 0, 0, 0, 0, 0, 7, 0, 0, 0,
         118, 101, 114, 115, 105, 111, 110, 0, 8, 0, 0, 0, 1, 0, 0, 0,
         1, 0, 0, 0, 0, 0, 0, 0, 0, 0, 0, 0, 0, 0, 0, 0, 0, 0, 0, 0, 0,
         0, 0, 0, 0, 0, 0, 0],
      nv_idx = Some 36\<rparr> []"
    using t unfolding if_P [OF cnd] rf by (rule conjunct2)
  with h1 h2 h3 show ?thesis
    by (intro conjI)
qed

text \<open>
  C7, as stated, fails: the stream of the list with the pair version, cut before the
  8 bytes of its terminator, is not refused.  \<^verbatim>\<open>nvlist_size\<close> reads the header at
  offset 60, past the end of the 60 bytes.
\<close>

theorem import_truncated_counterexample:
  "nvlist_import (Suc (Suc (Suc 0))) True True
     [1, 1, 0, 0, 0, 0, 0, 0, 0, 0, 0, 1, 0, 0, 0, 48, 0, 0, 0, 32, 0, 0, 0, 7,
      118, 101, 114, 115, 105, 111, 110, 0, 0, 0, 0, 8, 0, 0, 0, 1,
      0, 0, 0, 0, 0, 0, 0, 1, 0, 0, 0, 0, 0, 0, 0, 0, 0, 0, 0, 0] = Inl BadAccess \<and>
   nvlist_import (Suc (Suc (Suc 0))) True True
     [1, 1, 0, 0, 0, 0, 0, 0, 0, 0, 0, 1, 0, 0, 0, 48, 0, 0, 0, 32, 0, 0, 0, 7,
      118, 101, 114, 115, 105, 111, 110, 0, 0, 0, 0, 8, 0, 0, 0, 1,
      0, 0, 0, 0, 0, 0, 0, 1, 0, 0, 0, 0, 0, 0, 0, 0, 0, 0, 0, 0] \<noteq> Inr None"
  by (simp add: eval_defs xdr_eval_defs)

text \<open>
  C7, amended.  \<^verbatim>\<open>nvlist_size\<close> and \<^verbatim>\<open>nvlist_import\<close> receive no length and bound no read.
  For a stream whose head is accepted and whose walk ends at the offset \<open>p\<close>, and for
  every \<open>k\<close> from 12 up to \<open>p - 1\<close>, the walk on the first \<open>k\<close> bytes of the stream
  reads a header past the end of these bytes, and so does \<^verbatim>\<open>nvlist_import\<close> (when the
  handle is allocated): neither fails, and null is not returned.
\<close>

theorem import_truncated_reads_past_end:
  assumes "import_head_ok stream = Inr True" and "size_loop GET_BE stream 12 = Inr p"
    and "12 \<le> k" and "k < p"
  shows "nvlist_size xdr_import (take k stream) 4 = Inl BadAccess \<and>
         nvlist_import n True a2 (take k stream) = Inl BadAccess"
proof -
  have s: "nvlist_size xdr_import (take k stream) 4 = Inl BadAccess"
    using size_loop_truncated [OF assms(2,4)] by (simp add: nvlist_size_def xdr_import_def)
  have "import_head_ok (take k stream) = Inr True"
    using assms(1,3) by (simp add: import_head_ok_take)
  with s show ?thesis
    by (simp add: nvlist_import_def)
qed

text \<open>
  C7 amended, at the stream of the counterexample: 68 bytes, cut to 60.
\<close>

theorem import_truncated_reads_past_end_witness:
  "import_head_ok
     [1, 1, 0, 0, 0, 0, 0, 0, 0, 0, 0, 1, 0, 0, 0, 48, 0, 0, 0, 32, 0, 0, 0, 7,
      118, 101, 114, 115, 105, 111, 110, 0, 0, 0, 0, 8, 0, 0, 0, 1,
      0, 0, 0, 0, 0, 0, 0, 1, 0, 0, 0, 0, 0, 0, 0, 0, 0, 0, 0, 0,
      0, 0, 0, 0, 0, 0, 0, 0] = Inr True \<and>
   size_loop GET_BE
     [1, 1, 0, 0, 0, 0, 0, 0, 0, 0, 0, 1, 0, 0, 0, 48, 0, 0, 0, 32, 0, 0, 0, 7,
      118, 101, 114, 115, 105, 111, 110, 0, 0, 0, 0, 8, 0, 0, 0, 1,
      0, 0, 0, 0, 0, 0, 0, 1, 0, 0, 0, 0, 0, 0, 0, 0, 0, 0, 0, 0,
      0, 0, 0, 0, 0, 0, 0, 0] 12 = Inr 68 \<and>
   (12::nat) \<le> 60 \<and> (60::nat) < 68 \<and>
   nvlist_size xdr_import (take 60
     [1, 1, 0, 0, 0, 0, 0, 0, 0, 0, 0, 1, 0, 0, 0, 48, 0, 0, 0, 32, 0, 0, 0, 7,
      118, 101, 114, 115, 105, 111, 110, 0, 0, 0, 0, 8, 0, 0, 0, 1,
      0, 0, 0, 0, 0, 0, 0, 1, 0, 0, 0, 0, 0, 0, 0, 0, 0, 0, 0, 0,
      0, 0, 0, 0, 0, 0, 0, 0]) 4 = Inl BadAccess \<and>
   nvlist_import (Suc (Suc (Suc 0))) True True (take 60
     [1, 1, 0, 0, 0, 0, 0, 0, 0, 0, 0, 1, 0, 0, 0, 48, 0, 0, 0, 32, 0, 0, 0, 7,
      118, 101, 114, 115, 105, 111, 110, 0, 0, 0, 0, 8, 0, 0, 0, 1,
      0, 0, 0, 0, 0, 0, 0, 1, 0, 0, 0, 0, 0, 0, 0, 0, 0, 0, 0, 0,
      0, 0, 0, 0, 0, 0, 0, 0]) = Inl BadAccess"
proof -
  let ?s = "[1, 1, 0, 0, 0, 0, 0, 0, 0, 0, 0, 1, 0, 0, 0, 48, 0, 0, 0, 32, 0, 0, 0, 7,
      118, 101, 114, 115, 105, 111, 110, 0, 0, 0, 0, 8, 0, 0, 0, 1,
      0, 0, 0, 0, 0, 0, 0, 1, 0, 0, 0, 0, 0, 0, 0, 0, 0, 0, 0, 0,
      0, 0, 0, 0, 0, 0, 0, 0] :: byte list"
  have h1: "import_head_ok ?s = Inr True"
    by (simp add: eval_defs xdr_eval_defs)
  have h2: "size_loop GET_BE ?s 12 = Inr 68"
    by (simp add: eval_defs xdr_eval_defs)
  have h3: "(12::nat) \<le> 60" and h4: "(60::nat) < 68"
    by simp_all
  from import_truncated_reads_past_end [OF h1 h2 h3 h4, of "Suc (Suc (Suc 0))" True]
  show ?thesis
    by (intro conjI h1 h2 h3 h4) blast+
qed

text \<open>
  C8.  The code compares as many bytes as the stored name has.  On the list with the
  one pair of the name a and the string x, \<^verbatim>\<open>nvlist_find(nvl, "ab", DATA_TYPE_STRING)\<close>
  returns 0 and the string of the pair a.
\<close>

theorem find_matches_prefix:
  "calls nvl_created [ADD_STRING alloc_ok (bytes_of ''a'') (bytes_of ''x'')]
     = Inr \<lparr>nv_header = \<lparr>nvh_encoding = 1, nvh_endian = 1, nvh_reserved1 = 0, nvh_reserved2 = 0\<rparr>,
        nv_asize = 52, nv_size = 52,
        nv_data = Some
           [0, 0, 0, 0, 1, 0, 0, 0, 36, 0, 0, 0, 32, 0, 0, 0, 1, 0, 0, 0,
            97, 0, 0, 0, 9, 0, 0, 0, 1, 0, 0, 0, 1, 0, 0, 0, 120, 0, 0, 0,
            0, 0, 0, 0, 0, 0, 0, 0, 0, 0, 0, 0],
        nv_idx = Some 40\<rparr> \<and>
   nvlist_find True
     (Some \<lparr>nv_header = \<lparr>nvh_encoding = 1, nvh_endian = 1, nvh_reserved1 = 0, nvh_reserved2 = 0\<rparr>,
        nv_asize = 52, nv_size = 52,
        nv_data = Some
           [0, 0, 0, 0, 1, 0, 0, 0, 36, 0, 0, 0, 32, 0, 0, 0, 1, 0, 0, 0,
            97, 0, 0, 0, 9, 0, 0, 0, 1, 0, 0, 0, 1, 0, 0, 0, 120, 0, 0, 0,
            0, 0, 0, 0, 0, 0, 0, 0, 0, 0, 0, 0],
        nv_idx = Some 40\<rparr>)
     (Some (bytes_of ''ab'')) DATA_TYPE_STRING
     = Inr (OK, \<lparr>elements = Some 1,
                val = Some (VAL_STRING [120, 0, 0, 0, 0, 0, 0, 0, 0, 0, 0, 0, 0, 0, 0, 0]),
                vsize = Some 1\<rparr>) \<and>
   bytes_of ''a'' \<noteq> bytes_of ''ab''"
  by (simp add: eval_defs nvlist_find_def)

text \<open>
  C9, as stated, fails: the used size of a list made by \<^verbatim>\<open>nvlist_create\<close> is 16, and
  the stream of a list made with the flags 0 is refused by \<^verbatim>\<open>nvlist_import\<close>, which
  accepts the flags \<^verbatim>\<open>NV_UNIQUE_NAME\<close> only.
\<close>

theorem create_size_counterexample:
  "map_option nv_size (nvlist_create True True 1) = Some 16 \<and>
   map_option nv_size (nvlist_create True True 1) \<noteq> Some 20 \<and>
   map_option stream_of (nvlist_create True True 0)
     = Some [1, 1, 0, 0, 0, 0, 0, 0, 0, 0, 0, 0, 0, 0, 0, 0, 0, 0, 0, 0] \<and>
   nvlist_import (Suc (Suc 0)) True True
     [1, 1, 0, 0, 0, 0, 0, 0, 0, 0, 0, 0, 0, 0, 0, 0, 0, 0, 0, 0] = Inr None"
  by (simp add: eval_defs xdr_eval_defs)

text \<open>
  C9, amended.  A list made by \<^verbatim>\<open>nvlist_create\<close> has the used size 16: the version,
  the flags and the 8 bytes of the terminator; the envelope header is held in the
  handle, and the stream of the list has 20 bytes.  For the flags \<^verbatim>\<open>NV_UNIQUE_NAME\<close>,
  \<^verbatim>\<open>nvlist_export\<close> and then \<^verbatim>\<open>nvlist_import\<close> of the stream (each with fuel from 2 on)
  give the list that was made, with the cursor \<^verbatim>\<open>nv_idx\<close> at the start of the data
  instead of null.
\<close>

theorem create_size_and_round_trip:
  assumes "nvlist_create True True flag = Some nvl"
  shows "nv_size nvl = 16 \<and> length (stream_of nvl) = 20 \<and>
         (flag = int NV_UNIQUE_NAME \<longrightarrow>
           (\<exists>nvle. nvlist_export (Suc (Suc n)) nvl = Inr (OK, nvle) \<and>
              nvlist_import (Suc (Suc k)) True True (stream_of nvle)
                = Inr (Some (nvl\<lparr>nv_idx := Some 0\<rparr>))))"
proof (intro conjI impI)
  from assms show "nv_size nvl = 16" "length (stream_of nvl) = 20"
    by (auto simp: nvlist_create_def sizeof_nvs_data_def stream_of_def)
next
  assume "flag = int NV_UNIQUE_NAME"
  with assms have nvl: "nvl = nvl_created"
    using create_unique by (simp add: NV_UNIQUE_NAME_def)
  have e: "nvlist_export (Suc (Suc n)) nvl_created
        = Inr (OK, nvl_created\<lparr>nv_data := Some [0, 0, 0, 0, 0, 0, 0, 1, 0, 0, 0, 0, 0, 0, 0, 0],
                             nv_idx := Some 16\<rparr>)"
    by (simp add: eval_defs xdr_eval_defs)
  have i: "nvlist_import (Suc (Suc k)) True True
        (stream_of (nvl_created\<lparr>nv_data := Some [0, 0, 0, 0, 0, 0, 0, 1, 0, 0, 0, 0, 0, 0, 0, 0],
                             nv_idx := Some 16\<rparr>))
        = Inr (Some (nvl_created\<lparr>nv_idx := Some 0\<rparr>))"
    by (simp add: eval_defs xdr_eval_defs)
  from e i show "\<exists>nvle. nvlist_export (Suc (Suc n)) nvl = Inr (OK, nvle) \<and>
              nvlist_import (Suc (Suc k)) True True (stream_of nvle)
                = Inr (Some (nvl\<lparr>nv_idx := Some 0\<rparr>))"
    unfolding nvl by blast
qed

text \<open>
  C9 amended, at the list made with the flags \<^verbatim>\<open>NV_UNIQUE_NAME\<close>.
\<close>

theorem create_size_and_round_trip_witness:
  "nvlist_create True True 1 = Some nvl_created \<and> nv_size nvl_created = 16 \<and>
   length (stream_of nvl_created) = 20 \<and> (1::int) = int NV_UNIQUE_NAME \<and>
   (\<exists>nvle. nvlist_export (Suc (Suc 0)) nvl_created = Inr (OK, nvle) \<and>
      nvlist_import (Suc (Suc 0)) True True (stream_of nvle)
        = Inr (Some (nvl_created\<lparr>nv_idx := Some 0\<rparr>)))"
proof -
  have h1: "nvlist_create True True 1 = Some nvl_created"
    by (rule create_unique)
  have h2: "(1::int) = int NV_UNIQUE_NAME"
    by (simp add: NV_UNIQUE_NAME_def)
  from create_size_and_round_trip [OF h1, of 0 0] h2
  have "nv_size nvl_created = 16" "length (stream_of nvl_created) = 20"
    "\<exists>nvle. nvlist_export (Suc (Suc 0)) nvl_created = Inr (OK, nvle) \<and>
      nvlist_import (Suc (Suc 0)) True True (stream_of nvle)
        = Inr (Some (nvl_created\<lparr>nv_idx := Some 0\<rparr>))"
    by blast+
  with h1 h2 show ?thesis
    by (intro conjI)
qed

text \<open>
  C10.  \<^verbatim>\<open>nvlist_next\<close> returns \<^verbatim>\<open>EINVAL\<close> for a null handle, for a null data pointer and
  for every handle with a capacity that is not zero.  It returns 0 exactly on a handle
  with capacity zero whose headers form a chain from offset 8 to a terminator inside
  the bytes of the view, and then the data pointer is moved to the byte after the 8
  bytes of that terminator.
\<close>

theorem nvlist_next_borrowed_only:
  "nvlist_next None = Inr (EINVAL, None) \<and>
   (nv_data nvl = None \<or> nv_asize nvl \<noteq> 0 \<longrightarrow> nvlist_next (Some nvl) = Inr (EINVAL, Some nvl)) \<and>
   (nvlist_next (Some nvl) = Inr (OK, r) \<longleftrightarrow>
      nv_asize nvl = 0 \<and>
      (\<exists>m hs. nv_data nvl = Some m \<and> pair_chain m hs \<and> hd hs = 8 \<and>
         r = Some (nvl\<lparr>nv_data := Some (drop (last hs + 8) m)\<rparr>)))"
proof (intro conjI impI)
  show "nvlist_next None = Inr (EINVAL, None)"
    by (simp add: nvlist_next_def)
  show "nvlist_next (Some nvl) = Inr (EINVAL, Some nvl)" if "nv_data nvl = None \<or> nv_asize nvl \<noteq> 0"
    using that by (auto simp: nvlist_next_def split: option.splits)
  show "nvlist_next (Some nvl) = Inr (OK, r) \<longleftrightarrow>
      nv_asize nvl = 0 \<and>
      (\<exists>m hs. nv_data nvl = Some m \<and> pair_chain m hs \<and> hd hs = 8 \<and>
         r = Some (nvl\<lparr>nv_data := Some (drop (last hs + 8) m)\<rparr>))"
  proof (cases "nv_data nvl")
    case None
    then show ?thesis by (simp add: nvlist_next_def)
  next
    case (Some m)
    show ?thesis
    proof (cases "nv_asize nvl = 0")
      case False
      with Some show ?thesis by (simp add: nvlist_next_def)
    next
      case True
      have un: "nvlist_next (Some nvl) =
          bindf (list_end m 8) (\<lambda>nvp. Inr (OK, Some (nvl\<lparr>nv_data := Some (drop (nvp + 8) m)\<rparr>)))"
        by (simp add: nvlist_next_def Some True sizeof_nvp_header_def)
      show ?thesis
      proof
        assume "nvlist_next (Some nvl) = Inr (OK, r)"
        then obtain t where t: "list_end m 8 = Inr t"
          and r: "r = Some (nvl\<lparr>nv_data := Some (drop (t + 8) m)\<rparr>)"
          unfolding un by (auto simp: bindf_eq_Inr)
        from chain_of_list_end [OF t] obtain hs where "pair_chain m hs" "hd hs = 8" "last hs = t"
          by auto
        with r True Some show "nv_asize nvl = 0 \<and>
          (\<exists>m hs. nv_data nvl = Some m \<and> pair_chain m hs \<and> hd hs = 8 \<and>
             r = Some (nvl\<lparr>nv_data := Some (drop (last hs + 8) m)\<rparr>))"
          by auto
      next
        assume "nv_asize nvl = 0 \<and>
          (\<exists>m hs. nv_data nvl = Some m \<and> pair_chain m hs \<and> hd hs = 8 \<and>
             r = Some (nvl\<lparr>nv_data := Some (drop (last hs + 8) m)\<rparr>))"
        then obtain hs where hs: "pair_chain m hs" "hd hs = 8"
          and r: "r = Some (nvl\<lparr>nv_data := Some (drop (last hs + 8) m)\<rparr>)"
          using Some by auto
        from list_end_chain [OF hs(1)] hs(2) have "list_end m 8 = Inr (last hs)" by simp
        with r show "nvlist_next (Some nvl) = Inr (OK, r)"
          unfolding un by simp
      qed
    qed
  qed
qed

text \<open>
  C10, at a view of a list with one pair that is followed by four more bytes, and at
  the list made by \<^verbatim>\<open>nvlist_create\<close>.
\<close>

theorem nvlist_next_borrowed_only_witness:
  "nv_asize \<lparr>nv_header = \<lparr>nvh_encoding = 1, nvh_endian = 1, nvh_reserved1 = 0, nvh_reserved2 = 0\<rparr>,
             nv_asize = 0, nv_size = 0,
             nv_data = Some [0, 0, 0, 0, 1, 0, 0, 0, 48, 0, 0, 0, 32, 0, 0, 0, 7, 0, 0, 0,
               118, 101, 114, 115, 105, 111, 110, 0, 8, 0, 0, 0, 1, 0, 0, 0,
               1, 0, 0, 0, 0, 0, 0, 0, 0, 0, 0, 0, 0, 0, 0, 0, 0, 0, 0, 0, 0,
               0, 0, 0, 0, 0, 0, 0, 1, 2, 3, 4],
             nv_idx = None\<rparr> = 0 \<and>
   pair_chain [0, 0, 0, 0, 1, 0, 0, 0, 48, 0, 0, 0, 32, 0, 0, 0, 7, 0, 0, 0,
               118, 101, 114, 115, 105, 111, 110, 0, 8, 0, 0, 0, 1, 0, 0, 0,
               1, 0, 0, 0, 0, 0, 0, 0, 0, 0, 0, 0, 0, 0, 0, 0, 0, 0, 0, 0, 0,
               0, 0, 0, 0, 0, 0, 0, 1, 2, 3, 4] [8, 56] \<and>
   nvlist_next (Some \<lparr>nv_header = \<lparr>nvh_encoding = 1, nvh_endian = 1, nvh_reserved1 = 0,
                                   nvh_reserved2 = 0\<rparr>,
             nv_asize = 0, nv_size = 0,
             nv_data = Some [0, 0, 0, 0, 1, 0, 0, 0, 48, 0, 0, 0, 32, 0, 0, 0, 7, 0, 0, 0,
               118, 101, 114, 115, 105, 111, 110, 0, 8, 0, 0, 0, 1, 0, 0, 0,
               1, 0, 0, 0, 0, 0, 0, 0, 0, 0, 0, 0, 0, 0, 0, 0, 0, 0, 0, 0, 0,
               0, 0, 0, 0, 0, 0, 0, 1, 2, 3, 4],
             nv_idx = None\<rparr>)
     = Inr (OK, Some \<lparr>nv_header = \<lparr>nvh_encoding = 1, nvh_endian = 1, nvh_reserved1 = 0,
                                   nvh_reserved2 = 0\<rparr>,
             nv_asize = 0, nv_size = 0, nv_data = Some [1, 2, 3, 4], nv_idx = None\<rparr>) \<and>
   nvlist_next (Some \<lparr>nv_header = \<lparr>nvh_encoding = 1, nvh_endian = 1, nvh_reserved1 = 0,
                                   nvh_reserved2 = 0\<rparr>,
             nv_asize = 16, nv_size = 16,
             nv_data = Some [0, 0, 0, 0, 1, 0, 0, 0, 0, 0, 0, 0, 0, 0, 0, 0], nv_idx = None\<rparr>)
     = Inr (EINVAL, Some \<lparr>nv_header = \<lparr>nvh_encoding = 1, nvh_endian = 1, nvh_reserved1 = 0,
                                   nvh_reserved2 = 0\<rparr>,
             nv_asize = 16, nv_size = 16,
             nv_data = Some [0, 0, 0, 0, 1, 0, 0, 0, 0, 0, 0, 0, 0, 0, 0, 0], nv_idx = None\<rparr>)"
proof -
  define m :: "byte list" where "m = [0, 0, 0, 0, 1, 0, 0, 0, 48, 0, 0, 0, 32, 0, 0, 0, 7, 0, 0, 0,
               118, 101, 114, 115, 105, 111, 110, 0, 8, 0, 0, 0, 1, 0, 0, 0,
               1, 0, 0, 0, 0, 0, 0, 0, 0, 0, 0, 0, 0, 0, 0, 0, 0, 0, 0, 0, 0,
               0, 0, 0, 0, 0, 0, 0, 1, 2, 3, 4]"
  define v where "v = \<lparr>nv_header = \<lparr>nvh_encoding = 1, nvh_endian = 1, nvh_reserved1 = 0,
      nvh_reserved2 = 0\<rparr>, nv_asize = 0, nv_size = 0, nv_data = Some m, nv_idx = None\<rparr>"
  define w where "w = \<lparr>nv_header = \<lparr>nvh_encoding = 1, nvh_endian = 1, nvh_reserved1 = 0,
      nvh_reserved2 = 0\<rparr>, nv_asize = 16, nv_size = 16,
      nv_data = Some [0, 0, 0, 0, 1, 0, 0, 0, 0, 0, 0, 0, 0, 0, 0, (0::byte)], nv_idx = None\<rparr>"
  have i: "Suc i < 2 \<longleftrightarrow> i = 0" for i by auto
  have c: "pair_chain m [8, 56]"
    by (simp add: pair_chain_def i m_def pair_present_def load32_def readb_def)
  have a: "nv_asize v = 0" by (simp add: v_def)
  have "nv_asize v = 0 \<and> (\<exists>m' hs. nv_data v = Some m' \<and> pair_chain m' hs \<and> hd hs = 8 \<and>
         Some (v\<lparr>nv_data := Some (drop 64 m)\<rparr>) = Some (v\<lparr>nv_data := Some (drop (last hs + 8) m')\<rparr>))"
    using c by (intro conjI a exI [of _ m] exI [of _ "[8, 56]"]) (simp_all add: v_def)
  then have n: "nvlist_next (Some v) = Inr (OK, Some (v\<lparr>nv_data := Some (drop 64 m)\<rparr>))"
    using nvlist_next_borrowed_only [of v "Some (v\<lparr>nv_data := Some (drop 64 m)\<rparr>)"] by blast
  have "nv_data w = None \<or> nv_asize w \<noteq> 0" by (simp add: w_def)
  then have e: "nvlist_next (Some w) = Inr (EINVAL, Some w)"
    using nvlist_next_borrowed_only [of w None] by blast
  from a c n e show ?thesis
    unfolding v_def w_def m_def by simp
qed

end
